theory Spec2Isabelle
  imports Main
begin

section \<open>Data model (src/types.ts)\<close>

text \<open>
  Strings are JavaScript strings whose code units lie in the range 0..255, written as
  \<^typ>\<open>string\<close>. The status type and the parking detection record follow
  \<^verbatim>\<open>DomainStatus\<close> and \<^verbatim>\<open>ParkingDetection\<close>.
\<close>

datatype DomainStatus = Available | Taken | Parked | For_sale | Premium | Unknown

datatype Confidence = High | Medium | Low

record ParkingDetection =
  isParked :: bool
  broker :: "string option"
  indicators :: "string list"
  estimatedPrice :: "string option"
  confidence :: Confidence

record HttpVerificationResult =
  status :: DomainStatus
  parkingDetection :: "ParkingDetection option"
  httpStatus :: "nat option"
  redirectUrl :: "string option"

section \<open>Status resolution for one domain (src/server.ts, handleLookupDomain)\<close>

text \<open>
  The part of \<^verbatim>\<open>handleLookupDomain\<close> that decides the status. The results of
  the awaited calls are inputs: the RDAP answer, one optional listing per configured
  aftermarket provider (\<^verbatim>\<open>getDomainListing\<close>), and the result of
  \<^verbatim>\<open>verifyDomain\<close>. Step 2 (pricing) only attaches price data and never
  assigns the status, so it has no counterpart here.
\<close>

record RdapResult =
  available :: bool
  registered :: bool

record LookupArgs =
  include_aftermarket :: bool
  include_parking :: bool
  enableHttpVerification :: bool

record LookupDomainResult =
  availability_status :: DomainStatus
  verificationMethod :: string
  aftermarket_isListed :: bool
  parking :: "ParkingDetection option"
  lookup_httpStatus :: "nat option"
  lookup_redirectUrl :: "string option"

definition initResult :: LookupDomainResult where
  "initResult = \<lparr> availability_status = Unknown, verificationMethod = ''rdap'',
     aftermarket_isListed = False, parking = None,
     lookup_httpStatus = None, lookup_redirectUrl = None \<rparr>"

definition step1 :: "RdapResult \<Rightarrow> LookupDomainResult \<Rightarrow> LookupDomainResult" where
  "step1 rdap res =
     (if available rdap then res\<lparr>availability_status := Available\<rparr>
      else if registered rdap then res\<lparr>availability_status := Taken\<rparr>
      else res)"

definition step3 :: "LookupArgs \<Rightarrow> 'l option list \<Rightarrow> LookupDomainResult \<Rightarrow> LookupDomainResult" where
  "step3 args listings res =
     (if include_aftermarket args then
        (if listings \<noteq> [] then
           (if list_ex (\<lambda>l. l \<noteq> None) listings then
              (let res' = res\<lparr>aftermarket_isListed := True\<rparr>
               in if availability_status res' = Taken
                  then res'\<lparr>availability_status := For_sale\<rparr> else res')
            else res)
         else res)
      else res)"

definition step4 :: "LookupArgs \<Rightarrow> HttpVerificationResult \<Rightarrow> LookupDomainResult \<Rightarrow> LookupDomainResult" where
  "step4 args httpResult res =
     (if include_parking args \<and> enableHttpVerification args then
        (let res' =
           (if status httpResult = Parked \<or> status httpResult = For_sale then
              res\<lparr>availability_status := status httpResult,
                  parking := parkingDetection httpResult,
                  verificationMethod := ''http_check''\<rparr>
            else if status httpResult = Taken \<and> availability_status res = Available then
              res\<lparr>availability_status := Taken\<rparr>
            else res)
         in res'\<lparr>lookup_httpStatus := httpStatus httpResult,
                 lookup_redirectUrl := redirectUrl httpResult\<rparr>)
      else res)"

definition handleLookupDomain ::
  "LookupArgs \<Rightarrow> RdapResult \<Rightarrow> 'l option list \<Rightarrow> HttpVerificationResult \<Rightarrow> LookupDomainResult" where
  "handleLookupDomain args rdap listings httpResult =
     step4 args httpResult (step3 args listings (step1 rdap initResult))"

section \<open>String operations\<close>

text \<open>
  \<^verbatim>\<open>String.prototype.toLowerCase\<close> on code units 0..255: the ASCII capitals (65..90) and
  the Latin-1 capitals (192..222 but the multiplication sign 215) move up by 32. In both
  ranges the bit of value 32 is clear, so adding 32 sets that bit.
\<close>

definition lowerChar :: "char \<Rightarrow> char" where
  "lowerChar c =
     (let n = (of_char c :: nat)
      in if (65 \<le> n \<and> n \<le> 90) \<or> (192 \<le> n \<and> n \<le> 222 \<and> n \<noteq> 215)
         then Char (digit0 c) (digit1 c) (digit2 c) (digit3 c) (digit4 c) True (digit6 c) (digit7 c)
         else c)"

definition toLowerCase :: "string \<Rightarrow> string" where
  "toLowerCase s = map lowerChar s"

definition startsWith :: "string \<Rightarrow> string \<Rightarrow> bool" where
  "startsWith s p = (take (length p) s = p)"

definition endsWith :: "string \<Rightarrow> string \<Rightarrow> bool" where
  "endsWith s p = (length p \<le> length s \<and> drop (length s - length p) s = p)"

text \<open>\<^verbatim>\<open>String.prototype.includes\<close>: the pattern occurs at some position.\<close>

fun str_includes :: "string \<Rightarrow> string \<Rightarrow> bool" where
  "str_includes [] p = (p = [])"
| "str_includes (c # cs) p = (startsWith (c # cs) p \<or> str_includes cs p)"

definition isDigit :: "char \<Rightarrow> bool" where
  "isDigit c = (c \<in> set ''0123456789'')"

text \<open>The regular expression class \<^verbatim>\<open>\s\<close> (and what \<^verbatim>\<open>trim\<close> removes) on code units
  0..255: tab, line feed, vertical tab, form feed, carriage return, space, no-break space.\<close>

definition isSpace :: "char \<Rightarrow> bool" where
  "isSpace c = (c \<in> set [CHR 0x09, CHR 0x0A, CHR 0x0B, CHR 0x0C, CHR 0x0D, CHR 0x20, CHR 0xA0])"

section \<open>SSRF blocklist (src/services/http-verification.ts)\<close>

text \<open>
  Each regular expression of \<^verbatim>\<open>blockedPatterns\<close> as a predicate on the tested string, in
  the order of the source. A pattern with the \<^verbatim>\<open>i\<close> flag is matched against the
  lower-cased string: its letters are ASCII, and only the two ASCII cases of a letter
  match it.
\<close>

definition pat_172 :: "string \<Rightarrow> bool" where
  \<comment> \<open>\<^verbatim>\<open>/^172\.(1[6-9]|2[0-9]|3[0-1])\./\<close>\<close>
  "pat_172 d =
     (startsWith d ''172.'' \<and>
      (case drop 4 d of
         a # b # c # _ \<Rightarrow>
           ((a = CHR ''1'' \<and> b \<in> set ''6789'') \<or> (a = CHR ''2'' \<and> isDigit b)
              \<or> (a = CHR ''3'' \<and> b \<in> set ''01''))
           \<and> c = CHR ''.''
       | _ \<Rightarrow> False))"

definition blockedPatterns :: "(string \<Rightarrow> bool) list" where
  "blockedPatterns =
     [\<lambda>d. toLowerCase d = ''localhost'',
      \<lambda>d. startsWith d ''127.'',
      \<lambda>d. startsWith d ''10.'',
      \<lambda>d. startsWith d ''192.168.'',
      pat_172,
      \<lambda>d. startsWith d ''169.254.'',
      \<lambda>d. startsWith d ''0.'',
      \<lambda>d. startsWith d ''[::1]'',
      \<lambda>d. d = ''::1'',
      \<lambda>d. startsWith (toLowerCase d) ''fc00:'',
      \<lambda>d. startsWith (toLowerCase d) ''fd00:'',
      \<lambda>d. startsWith (toLowerCase d) ''fe80:'',
      \<lambda>d. str_includes (toLowerCase d) ''metadata.google'',
      \<lambda>d. endsWith (toLowerCase d) ''.internal'']"

definition isBlockedDomain :: "string \<Rightarrow> bool" where
  "isBlockedDomain domain = list_ex (\<lambda>pattern. pattern domain) blockedPatterns"

section \<open>Parking patterns (src/types.ts, PARKING_PATTERNS)\<close>

definition brokers :: "(string \<times> string list) list" where
  "brokers =
     [(''sedo'', [''sedo.com/'', ''href='' @ [CHR 0x22] @ ''https://sedo.com'', ''Sedo.com'',
                 ''powered by sedo'']),
      (''dan'', [''dan.com/'', ''href='' @ [CHR 0x22] @ ''https://dan.com'', ''Dan.com domain'']),
      (''afternic'', [''afternic.com/'', ''Afternic.com'']),
      (''godaddy'', [''godaddy.com/'', ''GoDaddy Auctions'', ''Get this domain at GoDaddy'']),
      (''namecheap'', [''namecheap.com/market'', ''Namecheap Marketplace'']),
      (''hugedomains'', [''hugedomains.com/'', ''HugeDomains.com'']),
      (''parkingcrew'', [''parkingcrew.com'', ''Powered by ParkingCrew'']),
      (''bodis'', [''bodis.com/'', ''Bodis.com''])]"

definition parkingIndicators :: "string list" where
  "parkingIndicators =
     [''This domain is for sale'', ''Buy this domain'', ''Make an offer on this domain'',
      ''Domain parking'', ''Premium domain for sale'', ''Get this domain'',
      ''Domain is for sale'', ''Inquire about this domain'', ''This domain may be for sale'',
      ''domain has been registered'', ''parked free'', ''Buy Now for'']"

section \<open>Classification (checkUrlForParking, analyzeHtml)\<close>

text \<open>
  The two nested loops over the brokers and their patterns. The accumulator is the pair
  of the variables \<^verbatim>\<open>broker\<close> and \<^verbatim>\<open>indicators\<close>; \<open>describe\<close> builds the indicator text.
\<close>

fun scanPatterns ::
  "(string \<Rightarrow> string) \<Rightarrow> string \<Rightarrow> string \<Rightarrow> string list
     \<Rightarrow> string option \<times> string list \<Rightarrow> string option \<times> string list" where
  "scanPatterns describe hay brokerName [] acc = acc"
| "scanPatterns describe hay brokerName (pattern # ps) acc =
     scanPatterns describe hay brokerName ps
       (if str_includes hay (toLowerCase pattern)
        then (Some brokerName, snd acc @ [describe pattern]) else acc)"

fun scanBrokers ::
  "(string \<Rightarrow> string) \<Rightarrow> string \<Rightarrow> (string \<times> string list) list
     \<Rightarrow> string option \<times> string list \<Rightarrow> string option \<times> string list" where
  "scanBrokers describe hay [] acc = acc"
| "scanBrokers describe hay (entry # rest) acc =
     scanBrokers describe hay rest (scanPatterns describe hay (fst entry) (snd entry) acc)"

definition checkUrlForParking :: "string \<Rightarrow> ParkingDetection" where
  "checkUrlForParking url =
     (let urlLower = toLowerCase url;
          found = scanBrokers (\<lambda>pattern. ''URL contains '' @ pattern) urlLower brokers (None, [])
      in \<lparr> isParked = (length (snd found) > 0),
           broker = fst found,
           indicators = snd found,
           estimatedPrice = None,
           confidence = (if length (snd found) > 1 then High else Medium) \<rparr>)"

fun scanIndicators :: "string \<Rightarrow> string list \<Rightarrow> string list \<Rightarrow> string list" where
  "scanIndicators hay [] inds = inds"
| "scanIndicators hay (indicator # rest) inds =
     scanIndicators hay rest
       (if str_includes hay (toLowerCase indicator)
        then inds @ [''Found '' @ [CHR 0x22] @ indicator @ [CHR 0x22]] else inds)"

subsection \<open>Price patterns\<close>

text \<open>
  Every price pattern is a prefix followed by \<^verbatim>\<open>[\d,]+(?:\.\d{2})?\<close>. \<open>priceTail\<close> gives the
  length of what that tail matches at the start of a string: the longest run of digits and
  commas, which must not be empty, and then a dot with two digits when they follow.
\<close>

definition priceTail :: "string \<Rightarrow> nat option" where
  "priceTail s =
     (let run = takeWhile (\<lambda>c. isDigit c \<or> c = CHR '','') s;
          rest = dropWhile (\<lambda>c. isDigit c \<or> c = CHR '','') s
      in if run = [] then None
         else Some (length run +
           (case rest of
              c1 # c2 # c3 # _ \<Rightarrow> if c1 = CHR ''.'' \<and> isDigit c2 \<and> isDigit c3 then 3 else 0
            | _ \<Rightarrow> 0)))"

text \<open>The prefixes: the length matched at the start of the string, if any.\<close>

definition dollarPrefix :: "string \<Rightarrow> nat option" where
  \<comment> \<open>\<^verbatim>\<open>\$\<close>\<close>
  "dollarPrefix s = (if startsWith s ''$'' then Some 1 else None)"

definition wordPrefix :: "string \<Rightarrow> string \<Rightarrow> nat option" where
  \<comment> \<open>\<^verbatim>\<open>USD\s*\<close> and \<^verbatim>\<open>EUR\s*\<close> with the \<^verbatim>\<open>i\<close> flag; \<open>w\<close> is the word in lower case\<close>
  "wordPrefix w s =
     (if toLowerCase (take (length w) s) = w
      then Some (length w + length (takeWhile isSpace (drop (length w) s))) else None)"

definition euroPrefix :: "string \<Rightarrow> nat option" where
  \<comment> \<open>The third pattern starts with the three code units U+00E2, U+201A, U+00AC as the
      source file has them; the second is above 255, so no string of this model matches.\<close>
  "euroPrefix s = None"

definition pricePatterns :: "(string \<Rightarrow> nat option) list" where
  "pricePatterns = [dollarPrefix, wordPrefix ''usd'', euroPrefix, wordPrefix ''eur'']"

definition matchAt :: "(string \<Rightarrow> nat option) \<Rightarrow> string \<Rightarrow> nat option" where
  "matchAt pre s =
     (case pre s of None \<Rightarrow> None
      | Some k \<Rightarrow> (case priceTail (drop k s) of None \<Rightarrow> None | Some m \<Rightarrow> Some (k + m)))"

text \<open>
  \<^verbatim>\<open>html.match(pattern)\<close> with the \<^verbatim>\<open>g\<close> flag: all matches from left to right, each search
  starting where the previous match ended (one further after an empty match).
\<close>

function matchAll :: "(string \<Rightarrow> nat option) \<Rightarrow> string \<Rightarrow> string list" where
  "matchAll pre [] = []"
| "matchAll pre (c # cs) =
     (case matchAt pre (c # cs) of
        None \<Rightarrow> matchAll pre cs
      | Some n \<Rightarrow> take n (c # cs) # matchAll pre (drop (max n 1) (c # cs)))"
  by pat_completeness auto
termination
  by (relation "measure (\<lambda>(pre, s). length s)") auto

text \<open>
  \<^verbatim>\<open>parseFloat(match.replace(/[^0-9.]/g, ''))\<close>. The cleaned string holds digits and dots
  only; \<^verbatim>\<open>parseFloat\<close> reads its longest prefix of the form digits, optional dot, digits.
  The value is kept exactly, as a pair \<open>(m, k)\<close> for \<open>m / 10 ^ k\<close>; \<open>None\<close> is NaN. A match of a
  price pattern has at most two digits after the dot, so its value is below 50 only if it
  is at most 49.99 and above 1000000 only if it is at least 1000000.01: the comparisons
  of the rounded double with 50 and 1000000 agree with the comparisons of the exact value.
\<close>

definition digitValue :: "char \<Rightarrow> nat" where
  "digitValue c = length (takeWhile (\<lambda>d. d \<noteq> c) ''0123456789'')"

definition digitsValue :: "string \<Rightarrow> nat" where
  "digitsValue ds = foldl (\<lambda>acc c. 10 * acc + digitValue c) 0 ds"

definition parseFloat :: "string \<Rightarrow> (nat \<times> nat) option" where
  "parseFloat s =
     (let ip = takeWhile isDigit s;
          rest = dropWhile isDigit s;
          frac = (case rest of [] \<Rightarrow> []
                  | c # cs \<Rightarrow> if c = CHR ''.'' then takeWhile isDigit cs else [])
      in if ip = [] \<and> frac = [] then None
         else Some (digitsValue (ip @ frac), length frac))"

definition MIN_DOMAIN_PRICE :: nat where "MIN_DOMAIN_PRICE = 50"
definition MAX_DOMAIN_PRICE :: nat where "MAX_DOMAIN_PRICE = 1000000"

definition numericValue :: "string \<Rightarrow> (nat \<times> nat) option" where
  "numericValue m = parseFloat (filter (\<lambda>c. isDigit c \<or> c = CHR ''.'') m)"

definition inPriceBand :: "string \<Rightarrow> bool" where
  "inPriceBand m =
     (case numericValue m of
        None \<Rightarrow> False
      | Some (v, k) \<Rightarrow> MIN_DOMAIN_PRICE * 10 ^ k \<le> v \<and> v \<le> MAX_DOMAIN_PRICE * 10 ^ k)"

fun firstAccepted :: "string list \<Rightarrow> string option" where
  "firstAccepted [] = None"
| "firstAccepted (m # ms) = (if inPriceBand m then Some m else firstAccepted ms)"

text \<open>The loop over the price patterns; the accumulator is \<^verbatim>\<open>estimatedPrice\<close> and
  \<^verbatim>\<open>indicators\<close>.\<close>

fun scanPrices ::
  "string \<Rightarrow> (string \<Rightarrow> nat option) list \<Rightarrow> string option \<times> string list
     \<Rightarrow> string option \<times> string list" where
  "scanPrices html [] acc = acc"
| "scanPrices html (pattern # ps) acc =
     scanPrices html ps
       (case firstAccepted (matchAll pattern html) of
          None \<Rightarrow> acc
        | Some m \<Rightarrow> (Some m, snd acc @ [''Price detected: '' @ m]))"

subsection \<open>Word count\<close>

text \<open>\<^verbatim>\<open>html.replace(/<[^>]*>/g, '')\<close>: a \<^verbatim>\<open><\<close> with a later \<^verbatim>\<open>>\<close> is removed up to the first
  such \<^verbatim>\<open>>\<close>; a \<^verbatim>\<open><\<close> with none stays.\<close>

function stripTags :: "string \<Rightarrow> string" where
  "stripTags [] = []"
| "stripTags (c # cs) =
     (if c = CHR ''<'' then
        (case dropWhile (\<lambda>x. x \<noteq> CHR ''>'') cs of
           [] \<Rightarrow> c # stripTags cs
         | _ # after \<Rightarrow> stripTags after)
      else c # stripTags cs)"
  by pat_completeness auto
termination
proof (relation "measure length")
  fix c :: char and cs x21 x22
  assume "dropWhile (\<lambda>x. x \<noteq> CHR ''>'') cs = x21 # x22"
  then have "length (x21 # x22) \<le> length cs"
    by (metis length_dropWhile_le)
  then show "(x22, c # cs) \<in> measure length" by simp
qed auto

definition trim :: "string \<Rightarrow> string" where
  "trim s = rev (dropWhile isSpace (rev (dropWhile isSpace s)))"

text \<open>\<^verbatim>\<open>split(/\s+/).length\<close> is one more than the number of maximal runs of white space.\<close>

fun spaceRuns :: "bool \<Rightarrow> string \<Rightarrow> nat" where
  "spaceRuns inRun [] = 0"
| "spaceRuns inRun (c # cs) =
     (if isSpace c then (if inRun then 0 else 1) + spaceRuns True cs
      else spaceRuns False cs)"

definition wordCount :: "string \<Rightarrow> nat" where
  "wordCount html = 1 + spaceRuns False (trim (stripTags html))"

definition analyzeHtml :: "string \<Rightarrow> ParkingDetection" where
  "analyzeHtml html =
     (let htmlLower = toLowerCase html;
          found = scanBrokers (\<lambda>pattern. ''Found '' @ [CHR 0x22] @ pattern @ [CHR 0x22] @ '' in page'')
                    htmlLower brokers (None, []);
          inds2 = scanIndicators htmlLower parkingIndicators (snd found);
          priced = scanPrices html pricePatterns (None, inds2);
          inds4 = (if wordCount html < 50 \<and> length (snd priced) > 0
                   then snd priced @ [''Minimal page content''] else snd priced)
      in \<lparr> isParked = (length inds4 \<ge> 2 \<or> fst found \<noteq> None),
           broker = fst found,
           indicators = inds4,
           estimatedPrice = fst priced,
           confidence = (if fst found \<noteq> None \<and> length inds4 \<ge> 3 then High
                         else if length inds4 \<ge> 2 then Medium else Low) \<rparr>)"

section \<open>The HTTP probe (tryFetch, verifyDomain)\<close>

text \<open>
  What the platform gives the probe. A response is read through its status, the two
  headers the code asks for (\<open>None\<close> when \<^verbatim>\<open>headers.get\<close> returns null) and
  \<open>resp_html\<close>, the value \<^verbatim>\<open>readResponseWithLimit\<close> returns for it (\<open>None\<close> for null).
  \<^verbatim>\<open>fetchIPv4\<close> either resolves to a response or rejects with an error message; a
  timeout aborts the request and is such a rejection. Its answer may depend on the requests
  made before, so it takes the list of the URLs requested so far. \<^verbatim>\<open>new URL(location, url)\<close>
  either throws (\<open>None\<close>) or gives a URL, of which the code reads \<^verbatim>\<open>hostname\<close> and
  \<^verbatim>\<open>toString()\<close>.
\<close>

record Response =
  resp_status :: nat
  resp_location :: "string option"
  resp_content_type :: "string option"
  resp_html :: "string option"

datatype FetchOutcome = Resolved Response | Rejected string

record URL =
  hostname :: string
  href :: string

record Platform =
  fetchIPv4 :: "string list \<Rightarrow> string \<Rightarrow> FetchOutcome"
  newURL :: "string \<Rightarrow> string \<Rightarrow> URL option"

definition unknownResult :: HttpVerificationResult where
  "unknownResult = \<lparr> status = Unknown, parkingDetection = None, httpStatus = None,
     redirectUrl = None \<rparr>"

text \<open>The \<^verbatim>\<open>catch\<close> block of \<^verbatim>\<open>tryFetch\<close>, on the error's message.\<close>

definition onFetchError :: "string \<Rightarrow> HttpVerificationResult" where
  "onFetchError errorMessage =
     (if str_includes errorMessage ''ENOTFOUND'' \<or> str_includes errorMessage ''EAI_AGAIN''
          \<or> str_includes errorMessage ''getaddrinfo''
      then unknownResult
      else if str_includes errorMessage ''ECONNREFUSED'' \<and> str_includes errorMessage ''::1''
      then unknownResult
      else if str_includes errorMessage ''ECONNREFUSED'' \<or> str_includes errorMessage ''ETIMEDOUT''
          \<or> str_includes errorMessage ''ECONNRESET'' \<or> str_includes errorMessage ''abort''
      then unknownResult
      else if str_includes errorMessage ''SSL'' \<or> str_includes errorMessage ''certificate''
          \<or> str_includes errorMessage ''CERT''
      then unknownResult
      else unknownResult)"

text \<open>The part of \<^verbatim>\<open>tryFetch\<close> after the redirect handling: a response that is not 3xx.\<close>

definition analyzeResponse :: "Response \<Rightarrow> HttpVerificationResult" where
  "analyzeResponse response =
     (let contentType = (case resp_content_type response of None \<Rightarrow> [] | Some t \<Rightarrow> t);
          takenResult = \<lparr> status = Taken, parkingDetection = None,
                          httpStatus = Some (resp_status response), redirectUrl = None \<rparr>
      in if str_includes contentType ''text/html'' then
           (case resp_html response of
              None \<Rightarrow> takenResult
            | Some html \<Rightarrow>
                if html = [] then takenResult
                else (let parkingDetection = analyzeHtml html
                      in if isParked parkingDetection then
                           \<lparr> status = (if broker parkingDetection \<noteq> None then For_sale else Parked),
                             parkingDetection = Some parkingDetection,
                             httpStatus = Some (resp_status response),
                             redirectUrl = None \<rparr>
                         else takenResult))
         else takenResult)"

definition MAX_REDIRECTS :: nat where "MAX_REDIRECTS = 5"

text \<open>
  \<^verbatim>\<open>tryFetch\<close>. The second component of the state is the list of the URLs requested so
  far, to which every call of \<^verbatim>\<open>fetchIPv4\<close> adds its URL.
\<close>

function tryFetch ::
  "Platform \<Rightarrow> string \<Rightarrow> nat \<Rightarrow> string list \<Rightarrow> HttpVerificationResult \<times> string list" where
  "tryFetch p url redirectCount requests =
     (if redirectCount \<ge> MAX_REDIRECTS then (unknownResult, requests)
      else
        (case fetchIPv4 p requests url of
           Rejected errorMessage \<Rightarrow> (onFetchError errorMessage, requests @ [url])
         | Resolved response \<Rightarrow>
             if resp_status response \<ge> 300 \<and> resp_status response < 400 then
               (case resp_location response of
                  None \<Rightarrow> (unknownResult, requests @ [url])
                | Some location \<Rightarrow>
                    if location = [] then (unknownResult, requests @ [url])
                    else
                      (case newURL p location url of
                         None \<Rightarrow> (unknownResult, requests @ [url])
                       | Some redirect \<Rightarrow>
                           if isBlockedDomain (hostname redirect)
                           then (unknownResult, requests @ [url])
                           else if isParked (checkUrlForParking (href redirect))
                           then (\<lparr> status = Parked,
                                    parkingDetection = Some (checkUrlForParking (href redirect)),
                                    httpStatus = Some (resp_status response),
                                    redirectUrl = Some (href redirect) \<rparr>,
                                 requests @ [url])
                           else tryFetch p (href redirect) (redirectCount + 1)
                                  (requests @ [url])))
             else (analyzeResponse response, requests @ [url])))"
  by pat_completeness auto
termination
  by (relation "measure (\<lambda>(p, url, redirectCount, requests). MAX_REDIRECTS - redirectCount)")
     auto

definition verifyDomain ::
  "Platform \<Rightarrow> string \<Rightarrow> string list \<Rightarrow> HttpVerificationResult \<times> string list" where
  "verifyDomain p domain requests =
     (if isBlockedDomain domain then (unknownResult, requests)
      else
        (let result = tryFetch p (''https://'' @ domain) 0 requests
         in if status (fst result) = Unknown
            then tryFetch p (''http://'' @ domain) 0 (snd result)
            else result))"

section \<open>Bulk verification (chunkArray, verifyBulk)\<close>

text \<open>
  The loop of \<^verbatim>\<open>chunkArray\<close>, with its variables \<open>i\<close> and \<open>chunks\<close>. With a \<open>chunkSize\<close>
  (the parameter \<^verbatim>\<open>size\<close>) of 0 and a non-empty array it does not end, which is the value
  \<open>None\<close>.
\<close>

partial_function (option) chunkLoop ::
  "'a list \<Rightarrow> nat \<Rightarrow> nat \<Rightarrow> 'a list list \<Rightarrow> 'a list list option" where
  "chunkLoop array chunkSize i chunks =
     (if i < length array
      then chunkLoop array chunkSize (i + chunkSize) (chunks @ [take chunkSize (drop i array)])
      else Some chunks)"

declare chunkLoop.simps [code]

definition chunkArray :: "'a list \<Rightarrow> nat \<Rightarrow> 'a list list option" where
  "chunkArray array chunkSize = chunkLoop array chunkSize 0 []"

text \<open>\<^verbatim>\<open>Map.prototype.set\<close> on a map kept as the list of its entries in insertion order: an
  existing key keeps its place and takes the new value, a new key goes to the end.\<close>

fun mapSet :: "('k \<times> 'v) list \<Rightarrow> 'k \<Rightarrow> 'v \<Rightarrow> ('k \<times> 'v) list" where
  "mapSet [] k v = [(k, v)]"
| "mapSet (e # es) k v = (if fst e = k then (k, v) # es else e # mapSet es k v)"

fun storeResults ::
  "(string \<times> 'v) list \<Rightarrow> (string \<times> 'v) list \<Rightarrow> (string \<times> 'v) list" where
  "storeResults results [] = results"
| "storeResults results (e # es) = storeResults (mapSet results (fst e) (snd e)) es"

text \<open>
  The probes of a group run concurrently: \<^verbatim>\<open>chunk.map\<close> calls \<^verbatim>\<open>verifyDomain\<close> for each domain
  of the group in order, and each call runs until its first \<^verbatim>\<open>await\<close>, which is the call of
  \<^verbatim>\<open>fetchIPv4\<close> in \<^verbatim>\<open>tryFetch\<close> (a blocked domain returns before). From then on a probe goes
  on whenever its pending request is answered; it then runs, without interruption by
  another probe, until it issues its next request or returns. (Reading the body of a
  response takes further \<^verbatim>\<open>await\<close>s, but a call that has read a body returns a status other
  than unknown, so that the probe issues no request after it.) A probe is therefore either
  waiting for the answer to a request or finished. A waiting probe holds its domain, which
  of the two \<^verbatim>\<open>tryFetch\<close> calls of \<^verbatim>\<open>verifyDomain\<close> it is in, the URL and the redirect depth of
  the pending request, and the answer \<^verbatim>\<open>fetchIPv4\<close> gives to it, which as in \<open>tryFetch\<close> is
  determined by the requests made before.
\<close>

datatype Attempt = Https | Http

datatype Probe =
    Waiting string Attempt string nat FetchOutcome
  | Finished string HttpVerificationResult

text \<open>\<^verbatim>\<open>tryFetch\<close> up to its first \<^verbatim>\<open>await\<close>: at the depth limit it returns at once, otherwise
  it has issued its request and waits.\<close>

definition enter ::
  "Platform \<Rightarrow> string \<Rightarrow> Attempt \<Rightarrow> string \<Rightarrow> nat \<Rightarrow> string list
     \<Rightarrow> (HttpVerificationResult + Probe) \<times> string list" where
  "enter p domain attempt url redirectCount requests =
     (if redirectCount \<ge> MAX_REDIRECTS then (Inl unknownResult, requests)
      else (Inr (Waiting domain attempt url redirectCount (fetchIPv4 p requests url)),
            requests @ [url]))"

text \<open>What \<^verbatim>\<open>verifyDomain\<close> does with the result of a \<^verbatim>\<open>tryFetch\<close> call: after an unknown
  result of the https call it calls \<^verbatim>\<open>tryFetch\<close> for the http URL, otherwise it returns the
  result.\<close>

definition settle ::
  "Platform \<Rightarrow> string \<Rightarrow> Attempt \<Rightarrow> HttpVerificationResult \<Rightarrow> string list
     \<Rightarrow> Probe \<times> string list" where
  "settle p domain attempt result requests =
     (if attempt = Https \<and> status result = Unknown
      then (case enter p domain Http (''http://'' @ domain) 0 requests of
              (Inl httpResult, requests') \<Rightarrow> (Finished domain httpResult, requests')
            | (Inr waiting, requests') \<Rightarrow> (waiting, requests'))
      else (Finished domain result, requests))"

text \<open>A call of \<^verbatim>\<open>tryFetch\<close> within a probe: the probe waits, or the call has returned at
  once and \<^verbatim>\<open>verifyDomain\<close> goes on with its result.\<close>

definition fetchNext ::
  "Platform \<Rightarrow> string \<Rightarrow> Attempt \<Rightarrow> string \<Rightarrow> nat \<Rightarrow> string list \<Rightarrow> Probe \<times> string list" where
  "fetchNext p domain attempt url redirectCount requests =
     (case enter p domain attempt url redirectCount requests of
        (Inl result, requests') \<Rightarrow> settle p domain attempt result requests'
      | (Inr waiting, requests') \<Rightarrow> (waiting, requests'))"

definition startProbe :: "Platform \<Rightarrow> string \<Rightarrow> string list \<Rightarrow> Probe \<times> string list" where
  "startProbe p domain requests =
     (if isBlockedDomain domain then (Finished domain unknownResult, requests)
      else fetchNext p domain Https (''https://'' @ domain) 0 requests)"

text \<open>The pending request of a waiting probe is answered: \<^verbatim>\<open>tryFetch\<close> from the \<^verbatim>\<open>await\<close> on.\<close>

definition deliver :: "Platform \<Rightarrow> Probe \<Rightarrow> string list \<Rightarrow> Probe \<times> string list" where
  "deliver p probe requests =
     (case probe of
        Finished domain result \<Rightarrow> (probe, requests)
      | Waiting domain attempt url redirectCount outcome \<Rightarrow>
          (case outcome of
             Rejected errorMessage \<Rightarrow> settle p domain attempt (onFetchError errorMessage) requests
           | Resolved response \<Rightarrow>
               if resp_status response \<ge> 300 \<and> resp_status response < 400 then
                 (case resp_location response of
                    None \<Rightarrow> settle p domain attempt unknownResult requests
                  | Some location \<Rightarrow>
                      if location = [] then settle p domain attempt unknownResult requests
                      else
                        (case newURL p location url of
                           None \<Rightarrow> settle p domain attempt unknownResult requests
                         | Some redirect \<Rightarrow>
                             if isBlockedDomain (hostname redirect)
                             then settle p domain attempt unknownResult requests
                             else if isParked (checkUrlForParking (href redirect))
                             then settle p domain attempt
                                    \<lparr> status = Parked,
                                      parkingDetection = Some (checkUrlForParking (href redirect)),
                                      httpStatus = Some (resp_status response),
                                      redirectUrl = Some (href redirect) \<rparr>
                                    requests
                             else fetchNext p domain attempt (href redirect) (redirectCount + 1)
                                    requests))
               else settle p domain attempt (analyzeResponse response) requests))"

text \<open>\<^verbatim>\<open>chunk.map\<close>: the probes of a group are started one after the other.\<close>

fun startAll :: "Platform \<Rightarrow> string list \<Rightarrow> string list \<Rightarrow> Probe list \<times> string list" where
  "startAll p [] requests = ([], requests)"
| "startAll p (domain # rest) requests =
     (let started = startProbe p domain requests;
          others = startAll p rest (snd started)
      in (fst started # fst others, snd others))"

fun probeDomain :: "Probe \<Rightarrow> string" where
  "probeDomain (Waiting domain attempt url redirectCount outcome) = domain"
| "probeDomain (Finished domain result) = domain"

fun isWaiting :: "Probe \<Rightarrow> bool" where
  "isWaiting (Waiting domain attempt url redirectCount outcome) = True"
| "isWaiting (Finished domain result) = False"

definition waitingIndices :: "Probe list \<Rightarrow> nat list" where
  "waitingIndices probes = filter (\<lambda>i. isWaiting (probes ! i)) [0..<length probes]"

text \<open>An upper bound of the number of answers a probe can still receive.\<close>

fun remaining :: "Probe \<Rightarrow> nat" where
  "remaining (Finished domain result) = 0"
| "remaining (Waiting domain Http url redirectCount outcome) = 1 + (MAX_REDIRECTS - redirectCount)"
| "remaining (Waiting domain Https url redirectCount outcome) =
     MAX_REDIRECTS + 2 + (MAX_REDIRECTS - redirectCount)"

text \<open>
  \<^verbatim>\<open>Promise.all\<close>: as long as a probe of the group waits, one of the waiting probes is
  answered next. Which one is for the network to decide: \<open>arrival\<close> chooses among the
  waiting probes, given the probes and the requests so far. No state of a group occurs
  twice (\<open>remaining\<close> decreases), so every order of arrival is the choice of some \<open>arrival\<close>.
\<close>

function awaitAll ::
  "Platform \<Rightarrow> (Probe list \<Rightarrow> string list \<Rightarrow> nat) \<Rightarrow> Probe list \<Rightarrow> string list
     \<Rightarrow> Probe list \<times> string list" where
  "awaitAll p arrival probes requests =
     (case waitingIndices probes of
        [] \<Rightarrow> (probes, requests)
      | w # ws \<Rightarrow>
          (let i = (w # ws) ! (arrival probes requests mod length (w # ws));
               answered = deliver p (probes ! i) requests
           in awaitAll p arrival (probes[i := fst answered]) (snd answered)))"
  by pat_completeness auto
termination
proof (relation "measure (\<lambda>(p, arrival, probes, requests). sum_list (map remaining probes))")
  show "wf (measure (\<lambda>(p, arrival, probes, requests). sum_list (map remaining probes)))"
    by simp
next
  fix p :: Platform and arrival :: "Probe list \<Rightarrow> string list \<Rightarrow> nat"
    and probes :: "Probe list" and requests :: "string list" and w ws i answered
  assume wi: "waitingIndices probes = w # ws"
    and i: "i = (w # ws) ! (arrival probes requests mod length (w # ws))"
    and a: "answered = deliver p (probes ! i) requests"
  have "i \<in> set (waitingIndices probes)"
    using wi i by (metis length_greater_0_conv list.discI mod_less_divisor nth_mem)
  then have bound: "i < length probes" and waits: "isWaiting (probes ! i)"
    by (simp_all add: waitingIndices_def)
  have settle_low: "remaining (fst (settle p domain attempt result rq))
      \<le> (if attempt = Https then MAX_REDIRECTS + 1 else 0)" for domain attempt result rq
    by (cases attempt) (auto simp: settle_def enter_def MAX_REDIRECTS_def)
  have next_low: "remaining (fst (fetchNext p domain attempt url' (Suc n) rq))
      < remaining (Waiting domain attempt url n outcome)" for domain attempt url' n rq url outcome
    using settle_low[of domain attempt unknownResult rq]
    by (cases attempt) (auto simp: fetchNext_def enter_def MAX_REDIRECTS_def)
  have settle_less: "remaining (fst (settle p domain attempt result rq))
      < remaining (Waiting domain attempt url n outcome)" for domain attempt result rq url n outcome
    using settle_low[of domain attempt result rq] by (cases attempt) auto
  have less: "remaining (fst (deliver p (probes ! i) requests)) < remaining (probes ! i)"
  proof (cases "probes ! i")
    case (Finished domain result)
    then show ?thesis using waits by simp
  next
    case (Waiting domain attempt url n outcome)
    show ?thesis
      unfolding Waiting deliver_def
      using settle_less[of domain attempt _ requests url n outcome]
        next_low[of domain attempt _ n requests url outcome]
      by (auto split: FetchOutcome.splits option.splits simp del: remaining.simps)
  qed
  have upd: "k < length xs \<Longrightarrow> y < xs ! k \<Longrightarrow> sum_list (xs[k := y]) < sum_list xs"
    for xs :: "nat list" and k y
    by (induction xs arbitrary: k) (auto split: nat.splits)
  have "sum_list (map remaining (probes[i := fst answered])) < sum_list (map remaining probes)"
    using upd[of i "map remaining probes" "remaining (fst answered)"] bound less a
    by (simp add: map_update del: remaining.simps)
  then show "((p, arrival, probes[i := fst answered], snd answered),
              (p, arrival, probes, requests))
            \<in> measure (\<lambda>(p, arrival, probes, requests). sum_list (map remaining probes))"
    by simp
qed

text \<open>The results of the probes of a group, in the order of the group, once all are finished.\<close>

fun settled :: "Probe list \<Rightarrow> (string \<times> HttpVerificationResult) list" where
  "settled [] = []"
| "settled (Finished domain result # probes) = (domain, result) # settled probes"
| "settled (Waiting domain attempt url redirectCount outcome # probes) = settled probes"

text \<open>The loop over the groups: the probes of a group are started and awaited, then their
  results are stored; the state is the result map and the requests so far.\<close>

fun bulkLoop ::
  "Platform \<Rightarrow> (Probe list \<Rightarrow> string list \<Rightarrow> nat) \<Rightarrow> string list list
     \<Rightarrow> (string \<times> HttpVerificationResult) list \<times> string list
     \<Rightarrow> (string \<times> HttpVerificationResult) list \<times> string list" where
  "bulkLoop p arrival [] acc = acc"
| "bulkLoop p arrival (chunk # chunks) acc =
     (let started = startAll p chunk (snd acc);
          finished = awaitAll p arrival (fst started) (snd started);
          chunkResults = settled (fst finished)
      in bulkLoop p arrival chunks (storeResults (fst acc) chunkResults, snd finished))"

definition verifyBulk ::
  "Platform \<Rightarrow> (Probe list \<Rightarrow> string list \<Rightarrow> nat) \<Rightarrow> string list \<Rightarrow> string list
     \<Rightarrow> ((string \<times> HttpVerificationResult) list \<times> string list) option" where
  "verifyBulk p arrival domains requests =
     (case chunkArray domains 5 of
        None \<Rightarrow> None
      | Some chunks \<Rightarrow> Some (bulkLoop p arrival chunks ([], requests)))"


section \<open>Example platforms\<close>

text \<open>
  Platforms at which the theorems below are instantiated. \<open>redirecting host target\<close>
  answers every request with a 302 whose Location is \<open>target\<close>, and resolves every
  Location to a URL with host name \<open>host\<close> and text \<open>target\<close>. \<open>offline\<close> rejects every
  request with a DNS error. \<open>serving html\<close> answers every request with a 200 page.
  The other two are described at their definitions.
\<close>

definition redirecting :: "string \<Rightarrow> string \<Rightarrow> Platform" where
  "redirecting host target =
     \<lparr> fetchIPv4 = (\<lambda>requests url. Resolved \<lparr> resp_status = 302, resp_location = Some target,
                        resp_content_type = None, resp_html = None \<rparr>),
       newURL = (\<lambda>location base. Some \<lparr> hostname = host, href = target \<rparr>) \<rparr>"

definition offline :: Platform where
  "offline =
     \<lparr> fetchIPv4 = (\<lambda>requests url. Rejected ''getaddrinfo ENOTFOUND example.com''),
       newURL = (\<lambda>location base. None) \<rparr>"

definition serving :: "string \<Rightarrow> Platform" where
  "serving html =
     \<lparr> fetchIPv4 = (\<lambda>requests url. Resolved \<lparr> resp_status = 200, resp_location = None,
                        resp_content_type = Some ''text/html; charset=utf-8'',
                        resp_html = Some html \<rparr>),
       newURL = (\<lambda>location base. None) \<rparr>"

definition httpsRedirecting :: "string \<Rightarrow> string \<Rightarrow> string \<Rightarrow> Platform" where
  \<comment> \<open>an https request is answered like \<open>redirecting host target\<close>, any other like
      \<open>serving html\<close>\<close>
  "httpsRedirecting host target html =
     \<lparr> fetchIPv4 = (\<lambda>requests url.
          if startsWith url ''https://''
          then Resolved \<lparr> resp_status = 302, resp_location = Some target,
                  resp_content_type = None, resp_html = None \<rparr>
          else Resolved \<lparr> resp_status = 200, resp_location = None,
                  resp_content_type = Some ''text/html; charset=utf-8'',
                  resp_html = Some html \<rparr>),
       newURL = (\<lambda>location base. Some \<lparr> hostname = host, href = target \<rparr>) \<rparr>"

definition bodyUnreadable :: Platform where
  \<comment> \<open>every request is answered with the headers of a 200 page, and the connection is
      reset while the body is read: \<^verbatim>\<open>reader.read()\<close> rejects, the \<^verbatim>\<open>catch\<close> of
      \<^verbatim>\<open>readResponseWithLimit\<close> returns null\<close>
  "bodyUnreadable =
     \<lparr> fetchIPv4 = (\<lambda>requests url. Resolved \<lparr> resp_status = 200, resp_location = None,
                        resp_content_type = Some ''text/html; charset=utf-8'',
                        resp_html = None \<rparr>),
       newURL = (\<lambda>location base. None) \<rparr>"

section \<open>Notions of the specification\<close>

text \<open>
  The derivation invariant of the specification's data model, in its words: confidence is
  high exactly when a broker is present and there are at least three indicators, medium
  exactly when that fails and there are at least two, low otherwise; and \<open>isParked\<close> holds
  exactly when there are at least two indicators or a broker is identified.
\<close>

definition derivationInvariant :: "ParkingDetection \<Rightarrow> bool" where
  "derivationInvariant d =
     (confidence d =
        (if broker d \<noteq> None \<and> length (indicators d) \<ge> 3 then High
         else if length (indicators d) \<ge> 2 then Medium else Low)
      \<and> isParked d = (length (indicators d) \<ge> 2 \<or> broker d \<noteq> None))"



text \<open>
  The consecutive groups of a list: the first \<open>k\<close> elements, then the groups of the rest.
\<close>

function groupsOf :: "nat \<Rightarrow> 'a list \<Rightarrow> 'a list list" where
  "groupsOf k xs = (if xs = [] \<or> k = 0 then [] else take k xs # groupsOf k (drop k xs))"
  by pat_completeness auto
termination
  by (relation "measure (\<lambda>(k, xs). length xs)") auto

section \<open>Merge policy\<close>

text \<open>
  C1. For a single-domain lookup: when the registry reports the domain available and the
  HTTP verification that was run reports taken, the final status is taken; when the
  registry reports taken, some aftermarket provider returned a listing and HTTP
  verification reports unknown, the final status is for_sale; and an unknown HTTP result
  leaves the status of the earlier merge steps as it was.
\<close>

theorem merge_policy:
  "(available rdap \<and> include_parking args \<and> enableHttpVerification args
      \<and> status http = Taken
     \<longrightarrow> availability_status (handleLookupDomain args rdap listings http) = Taken)
   \<and> (\<not> available rdap \<and> registered rdap \<and> include_aftermarket args
        \<and> list_ex (\<lambda>l. l \<noteq> None) listings \<and> status http = Unknown
     \<longrightarrow> availability_status (handleLookupDomain args rdap listings http) = For_sale)
   \<and> (status http = Unknown
     \<longrightarrow> availability_status (handleLookupDomain args rdap listings http)
         = availability_status (step3 args listings (step1 rdap initResult)))"
proof (intro conjI impI)
  assume a: "available rdap \<and> include_parking args \<and> enableHttpVerification args
      \<and> status http = Taken"
  have "availability_status (step3 args listings (step1 rdap initResult)) = Available"
    using a by (simp add: step3_def step1_def initResult_def Let_def)
  then show "availability_status (handleLookupDomain args rdap listings http) = Taken"
    using a by (simp add: handleLookupDomain_def step4_def Let_def)
next
  assume b: "\<not> available rdap \<and> registered rdap \<and> include_aftermarket args
        \<and> list_ex (\<lambda>l. l \<noteq> None) listings \<and> status http = Unknown"
  then have ne: "listings \<noteq> []" by auto
  have "availability_status (step3 args listings (step1 rdap initResult)) = For_sale"
    using b ne by (simp add: step3_def step1_def initResult_def Let_def)
  then show "availability_status (handleLookupDomain args rdap listings http) = For_sale"
    using b by (simp add: handleLookupDomain_def step4_def Let_def)
next
  assume "status http = Unknown"
  then show "availability_status (handleLookupDomain args rdap listings http)
         = availability_status (step3 args listings (step1 rdap initResult))"
    by (simp add: handleLookupDomain_def step4_def Let_def)
qed

theorem merge_policy_witness:
  "availability_status
     (handleLookupDomain
        \<lparr>include_aftermarket = True, include_parking = True, enableHttpVerification = True\<rparr>
        \<lparr>available = True, registered = False\<rparr> [None :: nat option]
        \<lparr>status = Taken, parkingDetection = None, httpStatus = Some 200, redirectUrl = None\<rparr>)
     = Taken
   \<and> availability_status
     (handleLookupDomain
        \<lparr>include_aftermarket = True, include_parking = True, enableHttpVerification = True\<rparr>
        \<lparr>available = False, registered = True\<rparr> [None, Some (7 :: nat)]
        \<lparr>status = Unknown, parkingDetection = None, httpStatus = None, redirectUrl = None\<rparr>)
     = For_sale"
  using
    merge_policy [of "\<lparr>available = True, registered = False\<rparr>"
      "\<lparr>include_aftermarket = True, include_parking = True, enableHttpVerification = True\<rparr>"
      "\<lparr>status = Taken, parkingDetection = None, httpStatus = Some 200, redirectUrl = None\<rparr>"
      "[None :: nat option]"]
    merge_policy [of "\<lparr>available = False, registered = True\<rparr>"
      "\<lparr>include_aftermarket = True, include_parking = True, enableHttpVerification = True\<rparr>"
      "\<lparr>status = Unknown, parkingDetection = None, httpStatus = None, redirectUrl = None\<rparr>"
      "[None, Some (7 :: nat)]"]
  by simp

section \<open>The probe: general facts\<close>

declare tryFetch.simps [simp del]

lemma onFetchError_unknown: "onFetchError errorMessage = unknownResult"
  by (simp add: onFetchError_def)

lemma analyzeResponse_status:
  "status (analyzeResponse response) \<in> {Taken, Parked, For_sale}"
  by (simp add: analyzeResponse_def Let_def split: option.splits)

lemma tryFetch_status:
  "status (fst (tryFetch p url n requests)) \<in> {Taken, Parked, For_sale, Unknown}"
proof (induction p url n requests rule: tryFetch.induct)
  case (1 p url redirectCount requests)
  show ?case
    using "1.IH" analyzeResponse_status
    apply (subst tryFetch.simps)
    apply (auto simp: unknownResult_def onFetchError_unknown
                split: FetchOutcome.splits option.splits)
    done
qed

lemma tryFetch_limit:
  "redirectCount \<ge> MAX_REDIRECTS \<Longrightarrow> tryFetch p url redirectCount requests = (unknownResult, requests)"
  by (subst tryFetch.simps) simp

lemma tryFetch_requests_bound:
  "length (snd (tryFetch p url n requests)) \<le> length requests + (MAX_REDIRECTS - n)"
proof (induction p url n requests rule: tryFetch.induct)
  case (1 p url redirectCount requests)
  show ?case
  proof (cases "redirectCount \<ge> MAX_REDIRECTS")
    case True
    then show ?thesis by (subst tryFetch.simps) simp
  next
    case False
    show ?thesis
      using "1.IH" False
      apply (subst tryFetch.simps)
      apply (auto split: FetchOutcome.splits option.splits)
      apply fastforce
      done
  qed
qed

lemma tryFetch_blocked_redirect:
  "redirectCount < MAX_REDIRECTS \<Longrightarrow> fetchIPv4 p requests url = Resolved response
   \<Longrightarrow> 300 \<le> resp_status response \<Longrightarrow> resp_status response < 400
   \<Longrightarrow> resp_location response = Some location \<Longrightarrow> newURL p location url = Some redirect
   \<Longrightarrow> isBlockedDomain (hostname redirect)
   \<Longrightarrow> tryFetch p url redirectCount requests = (unknownResult, requests @ [url])"
  by (subst tryFetch.simps) simp


lemma tryFetch_follow:
  "redirectCount < MAX_REDIRECTS \<Longrightarrow> fetchIPv4 p requests url = Resolved response
   \<Longrightarrow> 300 \<le> resp_status response \<Longrightarrow> resp_status response < 400
   \<Longrightarrow> resp_location response = Some location \<Longrightarrow> location \<noteq> []
   \<Longrightarrow> newURL p location url = Some redirect
   \<Longrightarrow> \<not> isBlockedDomain (hostname redirect)
   \<Longrightarrow> \<not> isParked (checkUrlForParking (href redirect))
   \<Longrightarrow> tryFetch p url redirectCount requests
       = tryFetch p (href redirect) (redirectCount + 1) (requests @ [url])"
  by (subst tryFetch.simps) simp

lemma tryFetch_plain_response:
  "redirectCount < MAX_REDIRECTS \<Longrightarrow> fetchIPv4 p requests url = Resolved response
   \<Longrightarrow> \<not> (300 \<le> resp_status response \<and> resp_status response < 400)
   \<Longrightarrow> tryFetch p url redirectCount requests = (analyzeResponse response, requests @ [url])"
  by (subst tryFetch.simps) auto

lemma tryFetch_rejected:
  "fetchIPv4 p requests url = Rejected errorMessage
   \<Longrightarrow> tryFetch p url redirectCount requests
       = (unknownResult, if redirectCount \<ge> MAX_REDIRECTS then requests else requests @ [url])"
  by (subst tryFetch.simps) (simp add: onFetchError_unknown)

lemma tryFetch_invalid_redirect:
  "fetchIPv4 p requests url = Resolved response
   \<Longrightarrow> 300 \<le> resp_status response \<Longrightarrow> resp_status response < 400
   \<Longrightarrow> resp_location response = Some location \<Longrightarrow> newURL p location url = None
   \<Longrightarrow> fst (tryFetch p url redirectCount requests) = unknownResult"
  by (subst tryFetch.simps) simp

text \<open>
  Every request that \<^verbatim>\<open>tryFetch\<close> adds goes to its own URL or to the text of a resolved
  redirect URL whose host name passed the blocklist.
\<close>

lemma tryFetch_requests:
  "\<exists>new. snd (tryFetch p url n requests) = requests @ new \<and>
     (\<forall>u\<in>set new. u = url \<or>
        (\<exists>location base redirect. newURL p location base = Some redirect
           \<and> href redirect = u \<and> \<not> isBlockedDomain (hostname redirect)))"
proof (induction p url n requests rule: tryFetch.induct)
  case (1 p url redirectCount requests)
  let ?ok = "\<lambda>u. \<exists>location base redirect. newURL p location base = Some redirect
           \<and> href redirect = u \<and> \<not> isBlockedDomain (hostname redirect)"
  have one: "\<exists>new. requests @ [url] = requests @ new \<and> (\<forall>u\<in>set new. u = url \<or> ?ok u)"
    by simp
  have none: "\<exists>new. requests = requests @ new \<and> (\<forall>u\<in>set new. u = url \<or> ?ok u)"
    by simp
  show ?case
  proof (cases "redirectCount \<ge> MAX_REDIRECTS")
    case True
    then show ?thesis using none by (subst tryFetch.simps) simp
  next
    case False
    show ?thesis
    proof (cases "fetchIPv4 p requests url")
      case (Rejected m)
      then show ?thesis using False one by (subst tryFetch.simps) simp
    next
      case (Resolved response)
      show ?thesis
      proof (cases "resp_status response \<ge> 300 \<and> resp_status response < 400")
        case noRedirect: False
        then show ?thesis using False Resolved one by (subst tryFetch.simps) auto
      next
        case isRedirect: True
        show ?thesis
        proof (cases "resp_location response")
          case None
          then show ?thesis using False Resolved isRedirect one by (subst tryFetch.simps) simp
        next
          case (Some location)
          show ?thesis
          proof (cases "newURL p location url")
            case None
            then show ?thesis
              using False Resolved isRedirect Some one by (subst tryFetch.simps) simp
          next
            case target: (Some redirect)
            show ?thesis
            proof (cases "location = [] \<or> isBlockedDomain (hostname redirect)
                            \<or> isParked (checkUrlForParking (href redirect))")
              case True
              then show ?thesis using False Resolved isRedirect Some target one
                by (subst tryFetch.simps) auto
            next
              case follow: False
              then have eq: "tryFetch p url redirectCount requests
                  = tryFetch p (href redirect) (redirectCount + 1) (requests @ [url])"
                using False Resolved isRedirect Some target by (subst tryFetch.simps) simp
              from "1.IH"[OF False Resolved isRedirect Some _ target] follow
              obtain new where new:
                "snd (tryFetch p (href redirect) (redirectCount + 1) (requests @ [url]))
                   = (requests @ [url]) @ new"
                and ok: "\<forall>u\<in>set new. u = href redirect \<or> ?ok u"
                by auto
              have "?ok (href redirect)" using target follow by blast
              then have "\<forall>u\<in>set ([url] @ new). u = url \<or> ?ok u"
                using ok by auto
              then show ?thesis using eq new by (metis append.assoc)
            qed
          qed
        qed
      qed
    qed
  qed
qed

lemma verifyDomain_requests:
  "\<exists>new. snd (verifyDomain p domain requests) = requests @ new \<and>
     (\<forall>u\<in>set new. u = ''https://'' @ domain \<or> u = ''http://'' @ domain \<or>
        (\<exists>location base redirect. newURL p location base = Some redirect
           \<and> href redirect = u \<and> \<not> isBlockedDomain (hostname redirect)))"
proof -
  let ?ok = "\<lambda>u. \<exists>location base redirect. newURL p location base = Some redirect
           \<and> href redirect = u \<and> \<not> isBlockedDomain (hostname redirect)"
  obtain n1 where n1: "snd (tryFetch p (''https://'' @ domain) 0 requests) = requests @ n1"
    and ok1: "\<forall>u\<in>set n1. u = ''https://'' @ domain \<or> ?ok u"
    using tryFetch_requests[of p "''https://'' @ domain" 0 requests] by blast
  obtain n2 where
    n2: "snd (tryFetch p (''http://'' @ domain) 0 (requests @ n1)) = (requests @ n1) @ n2"
    and ok2: "\<forall>u\<in>set n2. u = ''http://'' @ domain \<or> ?ok u"
    using tryFetch_requests[of p "''http://'' @ domain" 0 "requests @ n1"] by blast
  have both: "\<forall>u\<in>set (n1 @ n2). u = ''https://'' @ domain \<or> u = ''http://'' @ domain \<or> ?ok u"
    using ok1 ok2 by auto
  have first: "\<forall>u\<in>set n1. u = ''https://'' @ domain \<or> u = ''http://'' @ domain \<or> ?ok u"
    using ok1 by auto
  show ?thesis
  proof (cases "isBlockedDomain domain")
    case True
    then show ?thesis by (simp add: verifyDomain_def)
  next
    case False
    show ?thesis
    proof (cases "status (fst (tryFetch p (''https://'' @ domain) 0 requests)) = Unknown")
      case True
      then have "snd (verifyDomain p domain requests) = requests @ (n1 @ n2)"
        using False n1 n2 by (simp add: verifyDomain_def Let_def)
      then show ?thesis using both by blast
    next
      case notUnknown: False
      then have "snd (verifyDomain p domain requests) = requests @ n1"
        using False n1 by (simp add: verifyDomain_def Let_def)
      then show ?thesis using first by blast
    qed
  qed
qed

lemma verifyDomain_status:
  "status (fst (verifyDomain p domain requests)) \<in> {Taken, Parked, For_sale, Unknown}"
proof (cases "isBlockedDomain domain")
  case True
  then show ?thesis by (simp add: verifyDomain_def unknownResult_def)
next
  case False
  show ?thesis
  proof (cases "status (fst (tryFetch p (''https://'' @ domain) 0 requests)) = Unknown")
    case True
    then have "verifyDomain p domain requests
        = tryFetch p (''http://'' @ domain) 0 (snd (tryFetch p (''https://'' @ domain) 0 requests))"
      using False by (simp add: verifyDomain_def Let_def)
    then show ?thesis using tryFetch_status by simp
  next
    case notUnknown: False
    then have "verifyDomain p domain requests = tryFetch p (''https://'' @ domain) 0 requests"
      using False by (simp add: verifyDomain_def Let_def)
    then show ?thesis using tryFetch_status by simp
  qed
qed

section \<open>SSRF protection\<close>

lemma blocked_metadata_address: "isBlockedDomain ''169.254.169.254''"
  by code_simp

lemma blocked_private_address: "isBlockedDomain ''10.0.0.1''"
  by code_simp

lemma example_host_passes: "\<not> isBlockedDomain ''example.com''"
  by code_simp

lemma shop_page_not_parked:
  "\<not> isParked (analyzeHtml ''<html><body>Welcome to our shop</body></html>'')"
  by code_simp

text \<open>
  C2 as stated fails for the verification as a whole. The https request of
  \<^verbatim>\<open>example.com\<close> is answered with a redirect whose Location resolves to the blocked host
  \<^verbatim>\<open>10.0.0.1\<close>; that fetch returns unknown, so verification goes on to the http request,
  which is answered with a page, and returns taken. No request goes to the blocked target.
\<close>

theorem blocked_redirect_then_fallback:
  "isBlockedDomain ''10.0.0.1''
   \<and> fetchIPv4 (httpsRedirecting ''10.0.0.1'' ''http://10.0.0.1/admin''
          ''<html><body>Welcome to our shop</body></html>'') [] ''https://example.com''
       = Resolved \<lparr> resp_status = 302, resp_location = Some ''http://10.0.0.1/admin'',
                     resp_content_type = None, resp_html = None \<rparr>
   \<and> verifyDomain (httpsRedirecting ''10.0.0.1'' ''http://10.0.0.1/admin''
          ''<html><body>Welcome to our shop</body></html>'') ''example.com'' []
       = (\<lparr> status = Taken, parkingDetection = None, httpStatus = Some 200,
             redirectUrl = None \<rparr>,
          [''https://example.com'', ''http://example.com''])"
proof -
  let ?P = "httpsRedirecting ''10.0.0.1'' ''http://10.0.0.1/admin''
          ''<html><body>Welcome to our shop</body></html>''"
  have first: "tryFetch ?P ''https://example.com'' 0 [] = (unknownResult, [''https://example.com''])"
    using tryFetch_blocked_redirect [of 0 ?P "[]" "''https://example.com''"
        "\<lparr> resp_status = 302, resp_location = Some ''http://10.0.0.1/admin'',
           resp_content_type = None, resp_html = None \<rparr>"
        "''http://10.0.0.1/admin''"
        "\<lparr>hostname = ''10.0.0.1'', href = ''http://10.0.0.1/admin''\<rparr>"]
      blocked_private_address
    by (simp add: httpsRedirecting_def MAX_REDIRECTS_def startsWith_def)
  have page: "analyzeResponse \<lparr> resp_status = 200, resp_location = None,
                  resp_content_type = Some ''text/html; charset=utf-8'',
                  resp_html = Some ''<html><body>Welcome to our shop</body></html>'' \<rparr>
      = \<lparr> status = Taken, parkingDetection = None, httpStatus = Some 200, redirectUrl = None \<rparr>"
    using shop_page_not_parked by (simp add: analyzeResponse_def Let_def)
  have second: "tryFetch ?P ''http://example.com'' 0 [''https://example.com'']
      = (\<lparr> status = Taken, parkingDetection = None, httpStatus = Some 200, redirectUrl = None \<rparr>,
         [''https://example.com'', ''http://example.com''])"
    using tryFetch_plain_response [of 0 ?P "[''https://example.com'']" "''http://example.com''"
        "\<lparr> resp_status = 200, resp_location = None,
                  resp_content_type = Some ''text/html; charset=utf-8'',
                  resp_html = Some ''<html><body>Welcome to our shop</body></html>'' \<rparr>"]
      page
    by (simp add: httpsRedirecting_def MAX_REDIRECTS_def startsWith_def)
  have "verifyDomain ?P ''example.com'' []
      = (\<lparr> status = Taken, parkingDetection = None, httpStatus = Some 200, redirectUrl = None \<rparr>,
         [''https://example.com'', ''http://example.com''])"
    using first second example_host_passes
    by (simp add: verifyDomain_def Let_def unknownResult_def)
  then show ?thesis
    using blocked_private_address by (simp add: httpsRedirecting_def startsWith_def)
qed

text \<open>
  C2, amended. For a host name that matches the blocklist, verification returns unknown and
  issues no request. A fetch that receives a redirect whose Location resolves to a blocked
  host name returns unknown and has issued its own request only. When that fetch is the
  https attempt, verification goes on to the http attempt and returns its result; when
  it is the http attempt, verification returns unknown. In every case each request of a
  verification goes to the https or http URL of the verified domain or to a resolved
  redirect URL whose host name passed the blocklist, so none goes to a blocked target.
\<close>

theorem ssrf_blocked_targets:
  "(isBlockedDomain domain \<longrightarrow> verifyDomain p domain requests = (unknownResult, requests))
   \<and> (redirectCount < MAX_REDIRECTS \<and> fetchIPv4 p requests url = Resolved response
        \<and> 300 \<le> resp_status response \<and> resp_status response < 400
        \<and> resp_location response = Some location \<and> newURL p location url = Some redirect
        \<and> isBlockedDomain (hostname redirect)
      \<longrightarrow> tryFetch p url redirectCount requests = (unknownResult, requests @ [url]))
   \<and> (\<not> isBlockedDomain domain
        \<and> fetchIPv4 p requests (''https://'' @ domain) = Resolved response
        \<and> 300 \<le> resp_status response \<and> resp_status response < 400
        \<and> resp_location response = Some location
        \<and> newURL p location (''https://'' @ domain) = Some redirect
        \<and> isBlockedDomain (hostname redirect)
      \<longrightarrow> verifyDomain p domain requests
          = tryFetch p (''http://'' @ domain) 0 (requests @ [''https://'' @ domain]))
   \<and> (\<not> isBlockedDomain domain
        \<and> status (fst (tryFetch p (''https://'' @ domain) 0 requests)) = Unknown
        \<and> fetchIPv4 p (snd (tryFetch p (''https://'' @ domain) 0 requests)) (''http://'' @ domain)
            = Resolved response
        \<and> 300 \<le> resp_status response \<and> resp_status response < 400
        \<and> resp_location response = Some location
        \<and> newURL p location (''http://'' @ domain) = Some redirect
        \<and> isBlockedDomain (hostname redirect)
      \<longrightarrow> fst (verifyDomain p domain requests) = unknownResult)
   \<and> (\<exists>new. snd (verifyDomain p domain requests) = requests @ new \<and>
         (\<forall>u\<in>set new. u = ''https://'' @ domain \<or> u = ''http://'' @ domain \<or>
            (\<exists>location base redirect. newURL p location base = Some redirect
               \<and> href redirect = u \<and> \<not> isBlockedDomain (hostname redirect))))"
proof (intro conjI impI)
  assume "isBlockedDomain domain"
  then show "verifyDomain p domain requests = (unknownResult, requests)"
    by (simp add: verifyDomain_def)
next
  assume "redirectCount < MAX_REDIRECTS \<and> fetchIPv4 p requests url = Resolved response
        \<and> 300 \<le> resp_status response \<and> resp_status response < 400
        \<and> resp_location response = Some location \<and> newURL p location url = Some redirect
        \<and> isBlockedDomain (hostname redirect)"
  then show "tryFetch p url redirectCount requests = (unknownResult, requests @ [url])"
    using tryFetch_blocked_redirect by blast
next
  assume h: "\<not> isBlockedDomain domain
        \<and> fetchIPv4 p requests (''https://'' @ domain) = Resolved response
        \<and> 300 \<le> resp_status response \<and> resp_status response < 400
        \<and> resp_location response = Some location
        \<and> newURL p location (''https://'' @ domain) = Some redirect
        \<and> isBlockedDomain (hostname redirect)"
  then have "tryFetch p (''https://'' @ domain) 0 requests
      = (unknownResult, requests @ [''https://'' @ domain])"
    using tryFetch_blocked_redirect[of 0 p requests "''https://'' @ domain" response location
        redirect]
    by (simp add: MAX_REDIRECTS_def)
  then show "verifyDomain p domain requests
          = tryFetch p (''http://'' @ domain) 0 (requests @ [''https://'' @ domain])"
    using h by (simp add: verifyDomain_def Let_def unknownResult_def)
next
  assume h: "\<not> isBlockedDomain domain
        \<and> status (fst (tryFetch p (''https://'' @ domain) 0 requests)) = Unknown
        \<and> fetchIPv4 p (snd (tryFetch p (''https://'' @ domain) 0 requests)) (''http://'' @ domain)
            = Resolved response
        \<and> 300 \<le> resp_status response \<and> resp_status response < 400
        \<and> resp_location response = Some location
        \<and> newURL p location (''http://'' @ domain) = Some redirect
        \<and> isBlockedDomain (hostname redirect)"
  then have "fst (tryFetch p (''http://'' @ domain) 0
        (snd (tryFetch p (''https://'' @ domain) 0 requests))) = unknownResult"
    using tryFetch_blocked_redirect[of 0 p "snd (tryFetch p (''https://'' @ domain) 0 requests)"
        "''http://'' @ domain" response location redirect]
    by (simp add: MAX_REDIRECTS_def)
  then show "fst (verifyDomain p domain requests) = unknownResult"
    using h by (simp add: verifyDomain_def Let_def)
next
  show "\<exists>new. snd (verifyDomain p domain requests) = requests @ new \<and>
         (\<forall>u\<in>set new. u = ''https://'' @ domain \<or> u = ''http://'' @ domain \<or>
            (\<exists>location base redirect. newURL p location base = Some redirect
               \<and> href redirect = u \<and> \<not> isBlockedDomain (hostname redirect)))"
    by (rule verifyDomain_requests)
qed

theorem ssrf_blocked_targets_witness:
  "isBlockedDomain ''169.254.169.254''
   \<and> verifyDomain offline ''169.254.169.254'' [] = (unknownResult, [])
   \<and> isBlockedDomain (hostname \<lparr>hostname = ''10.0.0.1'', href = ''http://10.0.0.1/admin''\<rparr>)
   \<and> tryFetch (redirecting ''10.0.0.1'' ''http://10.0.0.1/admin'') ''https://example.com'' 0 []
       = (unknownResult, [''https://example.com''])
   \<and> verifyDomain (httpsRedirecting ''10.0.0.1'' ''http://10.0.0.1/admin''
          ''<html><body>Welcome to our shop</body></html>'') ''example.com'' []
       = tryFetch (httpsRedirecting ''10.0.0.1'' ''http://10.0.0.1/admin''
          ''<html><body>Welcome to our shop</body></html>'') ''http://example.com'' 0
          [''https://example.com'']
   \<and> fst (verifyDomain (redirecting ''10.0.0.1'' ''http://10.0.0.1/admin'') ''example.com'' [])
       = unknownResult"
proof -
  let ?R = "redirecting ''10.0.0.1'' ''http://10.0.0.1/admin''"
  let ?H = "httpsRedirecting ''10.0.0.1'' ''http://10.0.0.1/admin''
          ''<html><body>Welcome to our shop</body></html>''"
  let ?response = "\<lparr> resp_status = 302, resp_location = Some ''http://10.0.0.1/admin'',
         resp_content_type = None, resp_html = None \<rparr>"
  let ?target = "\<lparr>hostname = ''10.0.0.1'', href = ''http://10.0.0.1/admin''\<rparr>"
  have a: "verifyDomain offline ''169.254.169.254'' [] = (unknownResult, [])"
    using ssrf_blocked_targets [of "''169.254.169.254''" offline "[]"] blocked_metadata_address
    by simp
  have b: "tryFetch ?R ''https://example.com'' 0 [] = (unknownResult, [''https://example.com''])"
    using ssrf_blocked_targets [of "''example.com''" ?R "[]" 0 "''https://example.com''"
        ?response "''http://10.0.0.1/admin''" ?target]
      blocked_private_address
    by (simp add: redirecting_def MAX_REDIRECTS_def)
  have c: "verifyDomain ?H ''example.com'' []
      = tryFetch ?H ''http://example.com'' 0 [''https://example.com'']"
    using ssrf_blocked_targets [of "''example.com''" ?H "[]" 0 "''https://example.com''"
        ?response "''http://10.0.0.1/admin''" ?target]
      blocked_private_address example_host_passes
    by (simp add: httpsRedirecting_def startsWith_def)
  have d1: "fetchIPv4 ?R [''https://example.com''] ''http://example.com'' = Resolved ?response"
    by (simp add: redirecting_def)
  have d2: "newURL ?R ''http://10.0.0.1/admin'' ''http://example.com'' = Some ?target"
    by (simp add: redirecting_def)
  have d: "fst (verifyDomain ?R ''example.com'' []) = unknownResult"
    using ssrf_blocked_targets [of "''example.com''" ?R "[]" 0 "''https://example.com''"
        ?response "''http://10.0.0.1/admin''" ?target]
      blocked_private_address example_host_passes b d1 d2
    by (simp add: unknownResult_def)
  show ?thesis
    using a b c d blocked_metadata_address blocked_private_address by simp
qed

section \<open>Failures\<close>

text \<open>
  C6 as stated fails for an error raised after the response has arrived. The request is
  answered with the headers of a 200 page and the connection is reset while the body is
  read; \<^verbatim>\<open>readResponseWithLimit\<close> catches the error and returns null, and the fetch returns
  taken, not unknown.
\<close>

theorem body_read_error_is_taken:
  "fetchIPv4 bodyUnreadable [] ''https://example.com''
     = Resolved \<lparr> resp_status = 200, resp_location = None,
                   resp_content_type = Some ''text/html; charset=utf-8'', resp_html = None \<rparr>
   \<and> tryFetch bodyUnreadable ''https://example.com'' 0 []
     = (\<lparr> status = Taken, parkingDetection = None, httpStatus = Some 200, redirectUrl = None \<rparr>,
        [''https://example.com''])
   \<and> status (fst (verifyDomain bodyUnreadable ''example.com'' [])) = Taken"
proof -
  let ?response = "\<lparr> resp_status = 200, resp_location = None,
                   resp_content_type = Some ''text/html; charset=utf-8'', resp_html = None \<rparr>"
  have f: "fetchIPv4 bodyUnreadable [] ''https://example.com'' = Resolved ?response"
    by (simp add: bodyUnreadable_def)
  have t: "tryFetch bodyUnreadable ''https://example.com'' 0 []
     = (\<lparr> status = Taken, parkingDetection = None, httpStatus = Some 200, redirectUrl = None \<rparr>,
        [''https://example.com''])"
    using tryFetch_plain_response [of 0 bodyUnreadable "[]" "''https://example.com''" ?response] f
    by (simp add: MAX_REDIRECTS_def analyzeResponse_def Let_def)
  have "status (fst (verifyDomain bodyUnreadable ''example.com'' [])) = Taken"
    using t example_host_passes by (simp add: verifyDomain_def Let_def)
  then show ?thesis using f t by simp
qed

text \<open>
  C6, amended. A fetch whose request is rejected (DNS failure, refused or reset connection,
  TLS failure, abort on timeout: whatever the message) returns unknown; when both the https
  and the http request of a verification are rejected the verification returns unknown.
  An error raised while the body of a response that has arrived is read is absorbed: the
  fetch returns taken with the status code of the response. No result of a fetch or of a
  verification has the status available.
\<close>

theorem fetch_failure_is_unknown:
  "(fetchIPv4 p requests url = Rejected errorMessage
      \<longrightarrow> fst (tryFetch p url redirectCount requests) = unknownResult)
   \<and> (fetchIPv4 p requests (''https://'' @ domain) = Rejected e1
        \<and> fetchIPv4 p (requests @ [''https://'' @ domain]) (''http://'' @ domain) = Rejected e2
      \<longrightarrow> fst (verifyDomain p domain requests) = unknownResult)
   \<and> status (onFetchError errorMessage) = Unknown
   \<and> (redirectCount < MAX_REDIRECTS \<and> fetchIPv4 p requests url = Resolved response
        \<and> \<not> (300 \<le> resp_status response \<and> resp_status response < 400)
        \<and> resp_html response = None
      \<longrightarrow> tryFetch p url redirectCount requests
          = (\<lparr> status = Taken, parkingDetection = None,
                httpStatus = Some (resp_status response), redirectUrl = None \<rparr>,
             requests @ [url]))
   \<and> status (fst (tryFetch p url redirectCount requests)) \<noteq> Available
   \<and> status (fst (verifyDomain p domain requests)) \<noteq> Available"
proof (intro conjI impI)
  assume "fetchIPv4 p requests url = Rejected errorMessage"
  then show "fst (tryFetch p url redirectCount requests) = unknownResult"
    by (simp add: tryFetch_rejected)
next
  assume r: "fetchIPv4 p requests (''https://'' @ domain) = Rejected e1
        \<and> fetchIPv4 p (requests @ [''https://'' @ domain]) (''http://'' @ domain) = Rejected e2"
  have first: "tryFetch p (''https://'' @ domain) 0 requests
      = (unknownResult, requests @ [''https://'' @ domain])"
    using r tryFetch_rejected[of p requests "''https://'' @ domain" e1 0]
    by (simp add: MAX_REDIRECTS_def)
  have second: "fst (tryFetch p (''http://'' @ domain) 0 (requests @ [''https://'' @ domain]))
      = unknownResult"
    using r tryFetch_rejected[of p "requests @ [''https://'' @ domain]" "''http://'' @ domain" e2 0]
    by simp
  show "fst (verifyDomain p domain requests) = unknownResult"
    using first second by (simp add: verifyDomain_def Let_def unknownResult_def)
next
  show "status (onFetchError errorMessage) = Unknown"
    by (simp add: onFetchError_unknown unknownResult_def)
next
  assume "redirectCount < MAX_REDIRECTS \<and> fetchIPv4 p requests url = Resolved response
        \<and> \<not> (300 \<le> resp_status response \<and> resp_status response < 400)
        \<and> resp_html response = None"
  then show "tryFetch p url redirectCount requests
          = (\<lparr> status = Taken, parkingDetection = None,
                httpStatus = Some (resp_status response), redirectUrl = None \<rparr>,
             requests @ [url])"
    using tryFetch_plain_response[of redirectCount p requests url response]
    by (simp add: analyzeResponse_def Let_def)
next
  show "status (fst (tryFetch p url redirectCount requests)) \<noteq> Available"
    using tryFetch_status[of p url redirectCount requests] by auto
next
  show "status (fst (verifyDomain p domain requests)) \<noteq> Available"
    using verifyDomain_status[of p domain requests] by auto
qed

theorem fetch_failure_is_unknown_witness:
  "fetchIPv4 offline [] ''https://example.com'' = Rejected ''getaddrinfo ENOTFOUND example.com''
   \<and> fst (tryFetch offline ''https://example.com'' 0 []) = unknownResult
   \<and> fst (verifyDomain offline ''example.com'' []) = unknownResult
   \<and> resp_html \<lparr> resp_status = 200, resp_location = None,
                   resp_content_type = Some ''text/html; charset=utf-8'', resp_html = None \<rparr> = None
   \<and> tryFetch bodyUnreadable ''https://example.com'' 0 []
     = (\<lparr> status = Taken, parkingDetection = None, httpStatus = Some 200, redirectUrl = None \<rparr>,
        [''https://example.com''])"
proof -
  have a: "fst (tryFetch offline ''https://example.com'' 0 []) = unknownResult
      \<and> fst (verifyDomain offline ''example.com'' []) = unknownResult"
    using fetch_failure_is_unknown [of offline "[]" "''https://example.com''"
      "''getaddrinfo ENOTFOUND example.com''" 0 "''example.com''"
      "''getaddrinfo ENOTFOUND example.com''" "''getaddrinfo ENOTFOUND example.com''"]
    by (simp add: offline_def)
  have b: "tryFetch bodyUnreadable ''https://example.com'' 0 []
     = (\<lparr> status = Taken, parkingDetection = None, httpStatus = Some 200, redirectUrl = None \<rparr>,
        [''https://example.com''])"
    using fetch_failure_is_unknown [of bodyUnreadable "[]" "''https://example.com''" _ 0 _ _ _
      "\<lparr> resp_status = 200, resp_location = None,
         resp_content_type = Some ''text/html; charset=utf-8'', resp_html = None \<rparr>"]
    by (simp add: bodyUnreadable_def MAX_REDIRECTS_def)
  show ?thesis using a b by (simp add: offline_def)
qed

section \<open>Redirect bound\<close>

lemma loop_host_passes: "\<not> isBlockedDomain ''loop.example''"
  by code_simp

lemma loop_url_not_parking: "\<not> isParked (checkUrlForParking ''https://loop.example/next'')"
  by code_simp

text \<open>
  C8. At redirect depth 5 or more a fetch returns unknown and issues no request; a redirect
  that is followed continues at the resolved URL with the depth one higher and one request
  more; and a fetch at depth \<open>n\<close> issues at most \<open>5 - n\<close> requests, whatever the responses.
  \<^verbatim>\<open>tryFetch\<close> is a total function: it returns on every platform.
\<close>

theorem redirect_hops_bounded:
  "(redirectCount \<ge> 5 \<longrightarrow> tryFetch p url redirectCount requests = (unknownResult, requests))
   \<and> (redirectCount < 5 \<and> fetchIPv4 p requests url = Resolved response
        \<and> 300 \<le> resp_status response \<and> resp_status response < 400
        \<and> resp_location response = Some location \<and> location \<noteq> []
        \<and> newURL p location url = Some redirect
        \<and> \<not> isBlockedDomain (hostname redirect)
        \<and> \<not> isParked (checkUrlForParking (href redirect))
      \<longrightarrow> tryFetch p url redirectCount requests
          = tryFetch p (href redirect) (redirectCount + 1) (requests @ [url]))
   \<and> length (snd (tryFetch p url redirectCount requests)) \<le> length requests + (5 - redirectCount)"
proof (intro conjI impI)
  assume "redirectCount \<ge> 5"
  then show "tryFetch p url redirectCount requests = (unknownResult, requests)"
    by (simp add: tryFetch_limit MAX_REDIRECTS_def)
next
  assume "redirectCount < 5 \<and> fetchIPv4 p requests url = Resolved response
        \<and> 300 \<le> resp_status response \<and> resp_status response < 400
        \<and> resp_location response = Some location \<and> location \<noteq> []
        \<and> newURL p location url = Some redirect
        \<and> \<not> isBlockedDomain (hostname redirect)
        \<and> \<not> isParked (checkUrlForParking (href redirect))"
  then show "tryFetch p url redirectCount requests
          = tryFetch p (href redirect) (redirectCount + 1) (requests @ [url])"
    using tryFetch_follow[of redirectCount p requests url response location redirect]
    by (simp add: MAX_REDIRECTS_def)
next
  show "length (snd (tryFetch p url redirectCount requests)) \<le> length requests + (5 - redirectCount)"
    using tryFetch_requests_bound[of p url redirectCount requests] by (simp add: MAX_REDIRECTS_def)
qed

theorem redirect_hops_bounded_witness:
  "tryFetch (redirecting ''loop.example'' ''https://loop.example/next'') ''https://example.com'' 0 []
     = (unknownResult,
        [''https://example.com'', ''https://loop.example/next'', ''https://loop.example/next'',
         ''https://loop.example/next'', ''https://loop.example/next''])"
proof -
  let ?P = "redirecting ''loop.example'' ''https://loop.example/next''"
  let ?next = "''https://loop.example/next''"
  let ?response = "\<lparr> resp_status = 302, resp_location = Some ?next,
         resp_content_type = None, resp_html = None \<rparr>"
  let ?target = "\<lparr>hostname = ''loop.example'', href = ?next\<rparr>"
  have step: "n < 5 \<Longrightarrow> tryFetch ?P url n requests = tryFetch ?P ?next (n + 1) (requests @ [url])"
    for n url requests
    using redirect_hops_bounded [of n ?P url requests ?response ?next ?target]
      loop_host_passes loop_url_not_parking
    by (simp add: redirecting_def)
  have stop: "tryFetch ?P url 5 requests = (unknownResult, requests)" for url requests
    using redirect_hops_bounded [of 5 ?P url requests ?response ?next ?target] by simp
  have "tryFetch ?P ''https://example.com'' 0 [] = tryFetch ?P ?next 1 [''https://example.com'']"
    using step[of 0 "''https://example.com''" "[]"] by simp
  also have "\<dots> = tryFetch ?P ?next 2 [''https://example.com'', ?next]"
    using step[of 1 ?next "[''https://example.com'']"] by (simp add: eval_nat_numeral)
  also have "\<dots> = tryFetch ?P ?next 3 [''https://example.com'', ?next, ?next]"
    using step[of 2 ?next "[''https://example.com'', ?next]"] by (simp add: eval_nat_numeral)
  also have "\<dots> = tryFetch ?P ?next 4 [''https://example.com'', ?next, ?next, ?next]"
    using step[of 3 ?next "[''https://example.com'', ?next, ?next]"] by (simp add: eval_nat_numeral)
  also have "\<dots> = tryFetch ?P ?next 5 [''https://example.com'', ?next, ?next, ?next, ?next]"
    using step[of 4 ?next "[''https://example.com'', ?next, ?next, ?next]"]
    by (simp add: eval_nat_numeral)
  also have "\<dots> = (unknownResult, [''https://example.com'', ?next, ?next, ?next, ?next])"
    by (rule stop)
  finally show ?thesis .
qed

section \<open>Range of the probe's status\<close>

text \<open>
  C10. The status that HTTP verification returns, from \<^verbatim>\<open>verifyDomain\<close> and from every
  branch of \<^verbatim>\<open>tryFetch\<close>, is one of taken, parked, for_sale and unknown: never available
  and never premium.
\<close>

theorem http_status_range:
  "status (fst (verifyDomain p domain requests)) \<in> {Taken, Parked, For_sale, Unknown}
   \<and> status (fst (tryFetch p url redirectCount requests)) \<in> {Taken, Parked, For_sale, Unknown}
   \<and> status (fst (verifyDomain p domain requests)) \<noteq> Available
   \<and> status (fst (verifyDomain p domain requests)) \<noteq> Premium
   \<and> status (fst (tryFetch p url redirectCount requests)) \<noteq> Available
   \<and> status (fst (tryFetch p url redirectCount requests)) \<noteq> Premium"
  using verifyDomain_status[of p domain requests] tryFetch_status[of p url redirectCount requests]
  by auto

theorem http_status_range_witness:
  "status (fst (verifyDomain offline ''example.com'' [])) \<in> {Taken, Parked, For_sale, Unknown}
   \<and> status (fst (verifyDomain offline ''example.com'' [])) \<noteq> Available"
  using http_status_range [of offline "''example.com''" "[]" "''https://example.com''" 0]
  by simp

section \<open>Broker scan\<close>

lemma scanPatterns_broker:
  "(fst acc \<noteq> None) = (snd acc \<noteq> []) \<Longrightarrow>
   (fst (scanPatterns describe hay name ps acc) \<noteq> None)
     = (snd (scanPatterns describe hay name ps acc) \<noteq> [])"
  by (induction ps arbitrary: acc) auto

lemma scanBrokers_broker:
  "(fst acc \<noteq> None) = (snd acc \<noteq> []) \<Longrightarrow>
   (fst (scanBrokers describe hay bs acc) \<noteq> None)
     = (snd (scanBrokers describe hay bs acc) \<noteq> [])"
proof (induction bs arbitrary: acc)
  case Nil
  then show ?case by simp
next
  case (Cons entry rest)
  show ?case
    using Cons.IH[OF scanPatterns_broker[OF Cons.prems]] by simp
qed

lemma checkUrl_broker:
  "(broker (checkUrlForParking url) \<noteq> None) = (indicators (checkUrlForParking url) \<noteq> [])"
  using scanBrokers_broker[of "(None, [])" "\<lambda>pattern. ''URL contains '' @ pattern"
      "toLowerCase url" brokers]
  by (simp add: checkUrlForParking_def Let_def)

section \<open>Redirects to a broker\<close>






section \<open>Coverage of the blocklist\<close>

lemma blocked_by_pattern:
  "pattern \<in> set blockedPatterns \<Longrightarrow> pattern d \<Longrightarrow> isBlockedDomain d"
  by (auto simp: isBlockedDomain_def list_ex_iff)

lemma blocked_ipv4_prefixes:
  "isBlockedDomain (''127.'' @ rest)"
  "isBlockedDomain (''10.'' @ rest)"
  "isBlockedDomain (''192.168.'' @ rest)"
  "isBlockedDomain (''169.254.'' @ rest)"
  "isBlockedDomain (''0.'' @ rest)"
  by (simp_all add: isBlockedDomain_def blockedPatterns_def startsWith_def)

lemma blocked_172:
  "second \<in> set [''16'', ''17'', ''18'', ''19'', ''20'', ''21'', ''22'', ''23'', ''24'', ''25'',
                   ''26'', ''27'', ''28'', ''29'', ''30'', ''31'']
   \<Longrightarrow> isBlockedDomain (''172.'' @ second @ ''.'' @ rest)"
  by (auto simp add: isBlockedDomain_def blockedPatterns_def startsWith_def pat_172_def isDigit_def)

lemma blocked_names:
  "toLowerCase d = ''localhost'' \<Longrightarrow> isBlockedDomain d"
  "isBlockedDomain ''::1''"
  "isBlockedDomain (''[::1]'' @ rest)"
  "startsWith (toLowerCase d) ''fc00:'' \<Longrightarrow> isBlockedDomain d"
  "startsWith (toLowerCase d) ''fd00:'' \<Longrightarrow> isBlockedDomain d"
  "startsWith (toLowerCase d) ''fe80:'' \<Longrightarrow> isBlockedDomain d"
  "str_includes (toLowerCase d) ''metadata.google'' \<Longrightarrow> isBlockedDomain d"
  "endsWith (toLowerCase d) ''.internal'' \<Longrightarrow> isBlockedDomain d"
  by (simp_all add: isBlockedDomain_def blockedPatterns_def startsWith_def)

text \<open>
  C3, at addresses of the unique-local range fc00::/7. The address
  \<^verbatim>\<open>fd12:3456:789a:1::1\<close> is in the range; neither it nor its bracketed form, which is the
  host name of the URL \<^verbatim>\<open>http://[fd12:3456:789a:1::1]/\<close>, matches a pattern of the blocklist,
  and the same holds for \<^verbatim>\<open>fc01::1\<close> and for the link-local address \<^verbatim>\<open>febf::1\<close> of fe80::/10.
\<close>

theorem unique_local_not_blocked:
  "\<not> isBlockedDomain ''fd12:3456:789a:1::1''
   \<and> \<not> isBlockedDomain ''[fd12:3456:789a:1::1]''
   \<and> \<not> isBlockedDomain ''fc01::1''
   \<and> \<not> isBlockedDomain ''febf::1''"
  by code_simp

section \<open>Classification\<close>

lemma analyzeHtml_invariant: "derivationInvariant (analyzeHtml html)"
  by (simp add: derivationInvariant_def analyzeHtml_def Let_def)

lemma checkUrl_isParked:
  "isParked (checkUrlForParking url)
     = (length (indicators (checkUrlForParking url)) \<ge> 2
        \<or> broker (checkUrlForParking url) \<noteq> None)"
proof -
  have "isParked (checkUrlForParking url) = (indicators (checkUrlForParking url) \<noteq> [])"
    by (simp add: checkUrlForParking_def Let_def)
  then show ?thesis
    using checkUrl_broker[of url] by (cases "indicators (checkUrlForParking url)") auto
qed

lemma checkUrl_confidence:
  "confidence (checkUrlForParking url)
     = (if length (indicators (checkUrlForParking url)) \<ge> 2 then High else Medium)"
  by (auto simp add: checkUrlForParking_def Let_def)

lemma sedo_home_detection:
  "checkUrlForParking ''https://sedo.com/''
     = \<lparr> isParked = True, broker = Some ''sedo'',
         indicators = [''URL contains sedo.com/'', ''URL contains Sedo.com''],
         estimatedPrice = None, confidence = High \<rparr>"
  by code_simp

text \<open>
  C5 as stated fails for URL classification: the URL \<^verbatim>\<open>https://sedo.com/\<close> matches two
  signatures of the broker sedo, and its confidence is high with two indicators, where
  the invariant asks for three.
\<close>

theorem url_classification_breaks_invariant:
  "\<not> derivationInvariant (checkUrlForParking ''https://sedo.com/'')"
  by (simp add: sedo_home_detection derivationInvariant_def)

text \<open>
  C5, amended. Every result of body classification satisfies the derivation invariant.
  Every result of URL classification satisfies its \<open>isParked\<close> part; there a broker is
  identified exactly when there is an indicator, and the confidence is high exactly when
  there are at least two indicators and medium otherwise.
\<close>

theorem classification_derivation:
  "derivationInvariant (analyzeHtml html)
   \<and> isParked (checkUrlForParking url)
       = (length (indicators (checkUrlForParking url)) \<ge> 2
          \<or> broker (checkUrlForParking url) \<noteq> None)
   \<and> (broker (checkUrlForParking url) \<noteq> None) = (indicators (checkUrlForParking url) \<noteq> [])
   \<and> confidence (checkUrlForParking url)
       = (if length (indicators (checkUrlForParking url)) \<ge> 2 then High else Medium)"
  using analyzeHtml_invariant checkUrl_isParked checkUrl_broker checkUrl_confidence by blast

theorem classification_derivation_witness:
  "derivationInvariant (analyzeHtml ''<p>This domain is for sale. Buy this domain</p>'')
   \<and> confidence (checkUrlForParking ''https://sedo.com/'') = High
   \<and> length (indicators (checkUrlForParking ''https://sedo.com/'')) = 2"
  using classification_derivation
      [of "''<p>This domain is for sale. Buy this domain</p>''" "''https://sedo.com/''"]
  by (simp add: sedo_home_detection)

section \<open>Price extraction\<close>

































section \<open>Bulk verification\<close>

declare groupsOf.simps [simp del]
declare awaitAll.simps [simp del]

lemma groupsOf_Nil: "groupsOf k [] = []"
  by (subst groupsOf.simps) simp

lemma groupsOf_step:
  "xs \<noteq> [] \<Longrightarrow> 0 < k \<Longrightarrow> groupsOf k xs = take k xs # groupsOf k (drop k xs)"
  by (subst groupsOf.simps) simp

lemma groupsOf_concat: "0 < k \<Longrightarrow> concat (groupsOf k xs) = xs"
proof (induction k xs rule: groupsOf.induct)
  case (1 k xs)
  show ?case
  proof (cases "xs = []")
    case True
    then show ?thesis by (simp add: groupsOf_Nil)
  next
    case False
    have step: "groupsOf k xs = take k xs # groupsOf k (drop k xs)"
      using False "1.prems" by (rule groupsOf_step)
    have "concat (groupsOf k (drop k xs)) = drop k xs"
      using "1.IH" False "1.prems" by simp
    then show ?thesis by (simp add: step)
  qed
qed

lemma groupsOf_sizes: "0 < k \<Longrightarrow> \<forall>c\<in>set (groupsOf k xs). c \<noteq> [] \<and> length c \<le> k"
proof (induction k xs rule: groupsOf.induct)
  case (1 k xs)
  show ?case
  proof (cases "xs = []")
    case True
    then show ?thesis by (simp add: groupsOf_Nil)
  next
    case False
    have step: "groupsOf k xs = take k xs # groupsOf k (drop k xs)"
      using False "1.prems" by (rule groupsOf_step)
    have "\<forall>c\<in>set (groupsOf k (drop k xs)). c \<noteq> [] \<and> length c \<le> k"
      using "1.IH" False "1.prems" by simp
    then show ?thesis using False "1.prems" by (simp add: step)
  qed
qed

lemma groupsOf_full: "0 < k \<Longrightarrow> \<forall>c\<in>set (butlast (groupsOf k xs)). length c = k"
proof (induction k xs rule: groupsOf.induct)
  case (1 k xs)
  show ?case
  proof (cases "xs = []")
    case True
    then show ?thesis by (simp add: groupsOf_Nil)
  next
    case False
    have step: "groupsOf k xs = take k xs # groupsOf k (drop k xs)"
      using False "1.prems" by (rule groupsOf_step)
    have ih: "\<forall>c\<in>set (butlast (groupsOf k (drop k xs))). length c = k"
      using "1.IH" False "1.prems" by simp
    show ?thesis
    proof (cases "drop k xs = []")
      case True
      then show ?thesis by (simp add: step groupsOf_Nil)
    next
      case more: False
      then have "k < length xs" by simp
      then have full: "length (take k xs) = k" by simp
      have "groupsOf k (drop k xs) \<noteq> []"
        using groupsOf_step[OF more "1.prems"] by simp
      then show ?thesis using ih full by (simp add: step)
    qed
  qed
qed

lemma chunkLoop_groupsOf:
  assumes "0 < k"
  shows "chunkLoop xs k i acc = Some (acc @ groupsOf k (drop i xs))"
proof (induction "length xs - i" arbitrary: i acc rule: less_induct)
  case less
  show ?case
  proof (cases "i < length xs")
    case False
    then show ?thesis by (subst chunkLoop.simps) (simp add: groupsOf_Nil)
  next
    case True
    have smaller: "length xs - (i + k) < length xs - i"
      using True assms by simp
    have "chunkLoop xs k i acc = chunkLoop xs k (i + k) (acc @ [take k (drop i xs)])"
      using True by (subst chunkLoop.simps) simp
    also have "\<dots> = Some ((acc @ [take k (drop i xs)]) @ groupsOf k (drop (i + k) xs))"
      by (rule less[OF smaller])
    also have "groupsOf k (drop i xs) = take k (drop i xs) # groupsOf k (drop (i + k) xs)"
      using True assms by (simp add: groupsOf_step add.commute)
    then have "(acc @ [take k (drop i xs)]) @ groupsOf k (drop (i + k) xs)
        = acc @ groupsOf k (drop i xs)"
      by simp
    finally show ?thesis .
  qed
qed

lemma chunkArray_groupsOf: "0 < k \<Longrightarrow> chunkArray xs k = Some (groupsOf k xs)"
  using chunkLoop_groupsOf[of k xs 0 "[]"] by (simp add: chunkArray_def)

lemma verifyBulk_loop:
  "verifyBulk p arrival domains requests
     = Some (bulkLoop p arrival (groupsOf 5 domains) ([], requests))"
  by (simp add: verifyBulk_def chunkArray_groupsOf)

lemma mapSet_keys: "fst ` set (mapSet es k v) = insert k (fst ` set es)"
  by (induction es) auto

lemma mapSet_distinct: "distinct (map fst es) \<Longrightarrow> distinct (map fst (mapSet es k v))"
proof (induction es)
  case Nil
  then show ?case by simp
next
  case (Cons e es)
  show ?case
  proof (cases "fst e = k")
    case True
    then show ?thesis using Cons.prems by simp
  next
    case False
    have "fst e \<notin> fst ` set (mapSet es k v)"
      using False Cons.prems by (simp add: mapSet_keys)
    then show ?thesis using False Cons by simp
  qed
qed

lemma mapSet_map_of: "map_of (mapSet es k v) = (map_of es)(k \<mapsto> v)"
  by (induction es) (auto simp: fun_eq_iff)

lemma storeResults_keys:
  "fst ` set (storeResults results es) = fst ` set results \<union> fst ` set es"
  by (induction es arbitrary: results) (auto simp: mapSet_keys)

lemma storeResults_distinct:
  "distinct (map fst results) \<Longrightarrow> distinct (map fst (storeResults results es))"
  by (induction es arbitrary: results) (auto simp: mapSet_distinct)

lemma storeResults_lookup:
  "map_of (storeResults results es) x
     = (case map_of (storeResults [] es) x of None \<Rightarrow> map_of results x | Some r \<Rightarrow> Some r)"
proof (induction es arbitrary: results)
  case Nil
  then show ?case by simp
next
  case (Cons e es)
  obtain k v where e: "e = (k, v)" by (cases e)
  have one: "map_of (storeResults (mapSet results k v) es) x
      = (case map_of (storeResults [] es) x of
           None \<Rightarrow> map_of (mapSet results k v) x | Some r \<Rightarrow> Some r)"
    by (rule Cons.IH)
  have two: "map_of (storeResults [(k, v)] es) x
      = (case map_of (storeResults [] es) x of None \<Rightarrow> map_of [(k, v)] x | Some r \<Rightarrow> Some r)"
    by (rule Cons.IH)
  show ?case
    using one two by (auto simp: e mapSet_map_of split: option.splits)
qed

lemma storeResults_map_of:
  "map_of (storeResults results es) = map_of results ++ map_of (storeResults [] es)"
  by (rule ext) (simp add: storeResults_lookup[of results es] map_add_def)

lemma settle_domain: "probeDomain (fst (settle p domain attempt result requests)) = domain"
  by (simp add: settle_def enter_def)

lemma fetchNext_domain: "probeDomain (fst (fetchNext p domain attempt url n requests)) = domain"
  by (simp add: fetchNext_def enter_def settle_domain)

lemma startProbe_domain: "probeDomain (fst (startProbe p domain requests)) = domain"
  by (simp add: startProbe_def fetchNext_domain)

lemma deliver_domain: "probeDomain (fst (deliver p probe requests)) = probeDomain probe"
proof (cases probe)
  case (Finished domain result)
  then show ?thesis by (simp add: deliver_def)
next
  case (Waiting domain attempt url n outcome)
  show ?thesis
    unfolding Waiting deliver_def
    by (simp add: settle_domain fetchNext_domain split: FetchOutcome.splits option.splits)
qed

lemma startAll_domains: "map probeDomain (fst (startAll p chunk requests)) = chunk"
  by (induction chunk arbitrary: requests) (simp_all add: Let_def startProbe_domain)

lemma awaitAll_done:
  "map probeDomain (fst (awaitAll p arrival probes requests)) = map probeDomain probes
   \<and> waitingIndices (fst (awaitAll p arrival probes requests)) = []"
proof (induction p arrival probes requests rule: awaitAll.induct)
  case (1 p arrival probes requests)
  show ?case
  proof (cases "waitingIndices probes")
    case Nil
    then show ?thesis by (subst awaitAll.simps, subst (2) awaitAll.simps) simp
  next
    case (Cons w ws)
    let ?i = "(w # ws) ! (arrival probes requests mod length (w # ws))"
    let ?a = "deliver p (probes ! ?i) requests"
    have eq: "awaitAll p arrival probes requests
        = awaitAll p arrival (probes[?i := fst ?a]) (snd ?a)"
      using Cons by (subst awaitAll.simps) (simp add: Let_def)
    have "?i \<in> set (waitingIndices probes)"
      using Cons by (metis length_greater_0_conv list.discI mod_less_divisor nth_mem)
    then have bound: "?i < length probes" by (simp add: waitingIndices_def)
    have ih: "map probeDomain (fst (awaitAll p arrival (probes[?i := fst ?a]) (snd ?a)))
          = map probeDomain (probes[?i := fst ?a])
        \<and> waitingIndices (fst (awaitAll p arrival (probes[?i := fst ?a]) (snd ?a))) = []"
      using "1.IH"[OF Cons refl refl] .
    have "map probeDomain (probes[?i := fst ?a]) = map probeDomain probes"
      using bound by (simp add: map_update deliver_domain list_update_same_conv)
    then show ?thesis using eq ih by simp
  qed
qed

lemma no_waiting:
  "(waitingIndices probes = []) = (\<forall>probe\<in>set probes. \<not> isWaiting probe)"
  by (auto simp: waitingIndices_def filter_empty_conv all_set_conv_all_nth)

lemma settled_all:
  "\<forall>probe\<in>set probes. \<not> isWaiting probe \<Longrightarrow> map fst (settled probes) = map probeDomain probes"
proof (induction probes)
  case Nil
  then show ?case by simp
next
  case (Cons probe probes)
  then show ?case by (cases probe) simp_all
qed

lemma group_keys:
  "map fst (settled (fst (awaitAll p arrival (fst (startAll p chunk requests))
                             (snd (startAll p chunk requests))))) = chunk"
  using awaitAll_done[of p arrival "fst (startAll p chunk requests)" "snd (startAll p chunk requests)"]
    settled_all no_waiting startAll_domains[of p chunk requests]
  by simp

lemma bulkLoop_keys:
  "fst ` set (fst (bulkLoop p arrival chunks acc)) = fst ` set (fst acc) \<union> set (concat chunks)"
proof (induction chunks arbitrary: acc)
  case Nil
  then show ?case by simp
next
  case (Cons chunk chunks)
  let ?f = "awaitAll p arrival (fst (startAll p chunk (snd acc))) (snd (startAll p chunk (snd acc)))"
  have "fst ` set (settled (fst ?f)) = set chunk"
    using group_keys[of p arrival chunk "snd acc"] by (metis set_map)
  then show ?case
    by (simp add: Let_def Cons.IH storeResults_keys Un_assoc)
qed

lemma bulkLoop_distinct:
  "distinct (map fst (fst acc)) \<Longrightarrow> distinct (map fst (fst (bulkLoop p arrival chunks acc)))"
proof (induction chunks arbitrary: acc)
  case Nil
  then show ?case by simp
next
  case (Cons chunk chunks)
  show ?case
    using Cons.prems by (simp add: Let_def Cons.IH storeResults_distinct)
qed


lemma bulkLoop_requests:
  "snd (bulkLoop p arrival chunks (results, requests))
     = snd (bulkLoop p arrival chunks (results', requests))"
proof (induction chunks arbitrary: results results' requests)
  case Nil
  then show ?case by simp
next
  case (Cons chunk chunks)
  show ?case by (simp add: Let_def) (rule Cons.IH)
qed

lemma bulkLoop_map_of:
  "map_of (fst (bulkLoop p arrival chunks (results, requests)))
     = map_of results ++ map_of (fst (bulkLoop p arrival chunks ([], requests)))"
proof (induction chunks arbitrary: results requests)
  case Nil
  then show ?case by simp
next
  case (Cons chunk chunks)
  let ?f = "awaitAll p arrival (fst (startAll p chunk requests)) (snd (startAll p chunk requests))"
  let ?rest = "\<lambda>m. map_of (fst (bulkLoop p arrival chunks (m, snd ?f)))"
  have "map_of (fst (bulkLoop p arrival (chunk # chunks) (results, requests)))
      = ?rest (storeResults results (settled (fst ?f)))"
    by (simp add: Let_def)
  also have "\<dots> = map_of (storeResults results (settled (fst ?f))) ++ ?rest []"
    by (rule Cons.IH)
  also have "\<dots> = map_of results ++ (map_of (storeResults [] (settled (fst ?f))) ++ ?rest [])"
    by (simp add: storeResults_map_of[of results])
  also have "map_of (storeResults [] (settled (fst ?f))) ++ ?rest []
      = ?rest (storeResults [] (settled (fst ?f)))"
    by (rule Cons.IH[symmetric])
  also have "?rest (storeResults [] (settled (fst ?f)))
      = map_of (fst (bulkLoop p arrival (chunk # chunks) ([], requests)))"
    by (simp add: Let_def)
  finally show ?case .
qed

lemma bulkLoop_first:
  "bulkLoop p arrival (chunk # chunks) ([], requests)
     = bulkLoop p arrival chunks (bulkLoop p arrival [chunk] ([], requests))"
  by (simp add: Let_def)

lemma groupsOf_take: "0 < k \<Longrightarrow> groupsOf k (take k xs) = (if xs = [] then [] else [take k xs])"
  by (cases "xs = []") (simp_all add: groupsOf_Nil groupsOf_step[of "take k xs" k])

lemma verifyBulk_split:
  "\<exists>first requests1 rest.
      verifyBulk p arrival (take 5 domains) requests = Some (first, requests1)
      \<and> verifyBulk p arrival (drop 5 domains) requests1 = Some (rest, snd (bulkLoop p arrival
            (groupsOf 5 domains) ([], requests)))
      \<and> map_of (fst (bulkLoop p arrival (groupsOf 5 domains) ([], requests)))
          = map_of first ++ map_of rest"
proof (cases "domains = []")
  case True
  then show ?thesis by (simp add: verifyBulk_loop groupsOf_Nil)
next
  case False
  let ?g = "bulkLoop p arrival [take 5 domains] ([], requests)"
  let ?r = "bulkLoop p arrival (groupsOf 5 (drop 5 domains)) ([], snd ?g)"
  have whole: "bulkLoop p arrival (groupsOf 5 domains) ([], requests)
      = bulkLoop p arrival (groupsOf 5 (drop 5 domains)) (fst ?g, snd ?g)"
    using False bulkLoop_first[of p arrival "take 5 domains" "groupsOf 5 (drop 5 domains)" requests]
    by (simp add: groupsOf_step[of domains 5])
  have a: "verifyBulk p arrival (take 5 domains) requests = Some (fst ?g, snd ?g)"
    using False by (simp add: verifyBulk_loop groupsOf_take)
  have b: "verifyBulk p arrival (drop 5 domains) (snd ?g) = Some (fst ?r, snd ?r)"
    by (simp add: verifyBulk_loop)
  have c: "snd ?r = snd (bulkLoop p arrival (groupsOf 5 domains) ([], requests))"
    using whole bulkLoop_requests[of p arrival "groupsOf 5 (drop 5 domains)" "[]" "snd ?g" "fst ?g"]
    by simp
  have d: "map_of (fst (bulkLoop p arrival (groupsOf 5 domains) ([], requests)))
      = map_of (fst ?g) ++ map_of (fst ?r)"
    using whole bulkLoop_map_of[of p arrival "groupsOf 5 (drop 5 domains)" "fst ?g" "snd ?g"]
    by simp
  show ?thesis using a b c d by metis
qed

lemma settle_requests: "\<exists>later. snd (settle p domain attempt result requests) = requests @ later"
  by (simp add: settle_def enter_def)

lemma fetchNext_requests:
  "\<exists>later. snd (fetchNext p domain attempt url n requests) = requests @ later"
  using settle_requests[of p domain attempt unknownResult requests]
  by (simp add: fetchNext_def enter_def)

lemma deliver_requests: "\<exists>later. snd (deliver p probe requests) = requests @ later"
proof (cases probe)
  case (Finished domain result)
  then show ?thesis by (simp add: deliver_def)
next
  case (Waiting domain attempt url n outcome)
  show ?thesis
    unfolding Waiting deliver_def
    using settle_requests[of p domain attempt _ requests]
      fetchNext_requests[of p domain attempt _ _ requests]
    by (simp split: FetchOutcome.splits option.splits)
qed

lemma awaitAll_requests:
  "\<exists>later. snd (awaitAll p arrival probes requests) = requests @ later"
proof (induction p arrival probes requests rule: awaitAll.induct)
  case (1 p arrival probes requests)
  show ?case
  proof (cases "waitingIndices probes")
    case Nil
    then show ?thesis by (subst awaitAll.simps) simp
  next
    case (Cons w ws)
    let ?i = "(w # ws) ! (arrival probes requests mod length (w # ws))"
    let ?a = "deliver p (probes ! ?i) requests"
    have eq: "awaitAll p arrival probes requests
        = awaitAll p arrival (probes[?i := fst ?a]) (snd ?a)"
      using Cons by (subst awaitAll.simps) (simp add: Let_def)
    obtain l1 where l1: "snd ?a = requests @ l1"
      using deliver_requests by blast
    obtain l2 where "snd (awaitAll p arrival (probes[?i := fst ?a]) (snd ?a)) = snd ?a @ l2"
      using "1.IH"[OF Cons refl refl] by blast
    then show ?thesis using eq l1 by simp
  qed
qed

lemma startProbe_requests:
  "snd (startProbe p domain requests)
     = (if isBlockedDomain domain then requests else requests @ [''https://'' @ domain])"
  by (simp add: startProbe_def fetchNext_def enter_def MAX_REDIRECTS_def)

lemma startAll_requests:
  "snd (startAll p chunk requests)
     = requests @ map (\<lambda>d. ''https://'' @ d) (filter (\<lambda>d. \<not> isBlockedDomain d) chunk)"
  by (induction chunk arbitrary: requests) (simp_all add: Let_def startProbe_requests)

lemma group_requests:
  "\<exists>later. snd (bulkLoop p arrival [chunk] ([], requests))
     = requests @ map (\<lambda>d. ''https://'' @ d) (filter (\<lambda>d. \<not> isBlockedDomain d) chunk) @ later"
  using awaitAll_requests[of p arrival "fst (startAll p chunk requests)"
      "snd (startAll p chunk requests)"]
  by (auto simp add: Let_def startAll_requests)


text \<open>A probe that is alone in its group does what \<open>verifyDomain\<close> does.\<close>

lemma await_one_finished:
  "awaitAll p arrival [Finished domain result] requests = ([Finished domain result], requests)"
  by (subst awaitAll.simps) (simp add: waitingIndices_def)

lemma await_one_waiting:
  "awaitAll p arrival [Waiting domain attempt url n outcome] requests
     = awaitAll p arrival [fst (deliver p (Waiting domain attempt url n outcome) requests)]
         (snd (deliver p (Waiting domain attempt url n outcome) requests))"
  by (subst awaitAll.simps) (simp add: waitingIndices_def Let_def)

lemma await_fetch:
  "awaitAll p arrival [fst (fetchNext p domain attempt url n requests)]
       (snd (fetchNext p domain attempt url n requests))
     = awaitAll p arrival
         [fst (settle p domain attempt (fst (tryFetch p url n requests))
                 (snd (tryFetch p url n requests)))]
         (snd (settle p domain attempt (fst (tryFetch p url n requests))
                 (snd (tryFetch p url n requests))))"
proof (induction p url n requests rule: tryFetch.induct)
  case (1 p url redirectCount requests)
  let ?W = "Waiting domain attempt url redirectCount (fetchIPv4 p requests url)"
  let ?T = "tryFetch p url redirectCount requests"
  show ?case
  proof (cases "redirectCount \<ge> MAX_REDIRECTS")
    case True
    then show ?thesis by (simp add: fetchNext_def enter_def tryFetch_limit)
  next
    case False
    have waits: "fetchNext p domain attempt url redirectCount requests = (?W, requests @ [url])"
      using False by (simp add: fetchNext_def enter_def)
    have run: "awaitAll p arrival [?W] (requests @ [url])
        = awaitAll p arrival [fst (deliver p ?W (requests @ [url]))]
            (snd (deliver p ?W (requests @ [url])))"
      by (rule await_one_waiting)
    have fin: "deliver p ?W (requests @ [url]) = settle p domain attempt (fst ?T) (snd ?T)
        \<Longrightarrow> ?thesis"
      using waits run by simp
    show ?thesis
    proof (cases "fetchIPv4 p requests url")
      case (Rejected m)
      then show ?thesis
        using False by (intro fin) (simp add: deliver_def tryFetch_rejected onFetchError_unknown)
    next
      case (Resolved response)
      show ?thesis
      proof (cases "resp_status response \<ge> 300 \<and> resp_status response < 400")
        case noRedirect: False
        then show ?thesis
          using False Resolved tryFetch_plain_response[of redirectCount p requests url response]
          by (intro fin) (auto simp add: deliver_def)
      next
        case isRedirect: True
        show ?thesis
        proof (cases "resp_location response")
          case None
          then show ?thesis
            using False Resolved isRedirect
            by (intro fin, subst tryFetch.simps, subst (2) tryFetch.simps)
               (simp add: deliver_def)
        next
          case (Some location)
          show ?thesis
          proof (cases "newURL p location url")
            case None
            then show ?thesis
              using False Resolved isRedirect Some
              by (intro fin, subst tryFetch.simps, subst (2) tryFetch.simps)
                 (simp add: deliver_def)
          next
            case target: (Some redirect)
            show ?thesis
            proof (cases "location = [] \<or> isBlockedDomain (hostname redirect)
                            \<or> isParked (checkUrlForParking (href redirect))")
              case True
              then show ?thesis
                using False Resolved isRedirect Some target
                by (intro fin, subst tryFetch.simps, subst (2) tryFetch.simps)
                   (auto simp add: deliver_def)
            next
              case follow: False
              have eq: "?T = tryFetch p (href redirect) (redirectCount + 1) (requests @ [url])"
                using False Resolved isRedirect Some target follow
                by (subst tryFetch.simps) simp
              have d: "deliver p ?W (requests @ [url])
                  = fetchNext p domain attempt (href redirect) (redirectCount + 1)
                      (requests @ [url])"
                using Resolved isRedirect Some target follow by (simp add: deliver_def)
              have ih: "awaitAll p arrival
                    [fst (fetchNext p domain attempt (href redirect) (redirectCount + 1)
                           (requests @ [url]))]
                    (snd (fetchNext p domain attempt (href redirect) (redirectCount + 1)
                           (requests @ [url])))
                  = awaitAll p arrival
                      [fst (settle p domain attempt
                          (fst (tryFetch p (href redirect) (redirectCount + 1) (requests @ [url])))
                          (snd (tryFetch p (href redirect) (redirectCount + 1) (requests @ [url]))))]
                      (snd (settle p domain attempt
                          (fst (tryFetch p (href redirect) (redirectCount + 1) (requests @ [url])))
                          (snd (tryFetch p (href redirect) (redirectCount + 1) (requests @ [url])))))"
                using "1.IH"[OF False Resolved isRedirect Some _ target] follow by simp
              show ?thesis
                using waits run d ih eq by simp
            qed
          qed
        qed
      qed
    qed
  qed
qed

lemma settle_https:
  "settle p domain Https result requests
     = (if status result = Unknown then fetchNext p domain Http (''http://'' @ domain) 0 requests
        else (Finished domain result, requests))"
  by (simp add: settle_def fetchNext_def enter_def MAX_REDIRECTS_def)

lemma settle_http: "settle p domain Http result requests = (Finished domain result, requests)"
  by (simp add: settle_def)

lemma probe_alone:
  "awaitAll p arrival [fst (startProbe p domain requests)] (snd (startProbe p domain requests))
     = ([Finished domain (fst (verifyDomain p domain requests))],
        snd (verifyDomain p domain requests))"
proof (cases "isBlockedDomain domain")
  case True
  then show ?thesis by (simp add: startProbe_def verifyDomain_def await_one_finished)
next
  case False
  let ?T1 = "tryFetch p (''https://'' @ domain) 0 requests"
  let ?T2 = "tryFetch p (''http://'' @ domain) 0 (snd ?T1)"
  have start: "startProbe p domain requests
      = fetchNext p domain Https (''https://'' @ domain) 0 requests"
    using False by (simp add: startProbe_def)
  have first: "awaitAll p arrival [fst (startProbe p domain requests)]
        (snd (startProbe p domain requests))
      = awaitAll p arrival [fst (settle p domain Https (fst ?T1) (snd ?T1))]
          (snd (settle p domain Https (fst ?T1) (snd ?T1)))"
    unfolding start by (rule await_fetch)
  show ?thesis
  proof (cases "status (fst ?T1) = Unknown")
    case True
    have "awaitAll p arrival [fst (settle p domain Https (fst ?T1) (snd ?T1))]
          (snd (settle p domain Https (fst ?T1) (snd ?T1)))
        = awaitAll p arrival [fst (settle p domain Http (fst ?T2) (snd ?T2))]
            (snd (settle p domain Http (fst ?T2) (snd ?T2)))"
      using True await_fetch[of p arrival domain Http "''http://'' @ domain" 0 "snd ?T1"]
      by (simp add: settle_https)
    also have "\<dots> = ([Finished domain (fst ?T2)], snd ?T2)"
      by (simp add: settle_http await_one_finished)
    finally show ?thesis
      using first True False by (simp add: verifyDomain_def Let_def)
  next
    case notUnknown: False
    have "awaitAll p arrival [fst (settle p domain Https (fst ?T1) (snd ?T1))]
          (snd (settle p domain Https (fst ?T1) (snd ?T1)))
        = ([Finished domain (fst ?T1)], snd ?T1)"
      using notUnknown by (simp add: settle_https await_one_finished)
    then show ?thesis
      using first notUnknown False by (simp add: verifyDomain_def Let_def)
  qed
qed

lemma verifyBulk_single:
  "verifyBulk p arrival [domain] requests
     = Some ([(domain, fst (verifyDomain p domain requests))],
             snd (verifyDomain p domain requests))"
proof -
  have "groupsOf 5 [domain] = [[domain]]"
    by (simp add: groupsOf_step[of "[domain]" 5] groupsOf_Nil)
  then show ?thesis
    by (simp add: verifyBulk_loop Let_def probe_alone)
qed


lemma six_domains_offline:
  "verifyBulk offline (\<lambda>probes requests. 0)
       [''a.com'', ''b.com'', ''c.com'', ''d.com'', ''e.com'', ''f.com''] []
     = Some ([(''a.com'', unknownResult), (''b.com'', unknownResult), (''c.com'', unknownResult),
              (''d.com'', unknownResult), (''e.com'', unknownResult), (''f.com'', unknownResult)],
             [''https://a.com'', ''https://b.com'', ''https://c.com'', ''https://d.com'',
              ''https://e.com'', ''http://a.com'', ''http://b.com'', ''http://c.com'',
              ''http://d.com'', ''http://e.com'', ''https://f.com'', ''http://f.com''])"
  by code_simp

text \<open>
  C9. For every list of domains \<^verbatim>\<open>chunkArray\<close> returns, and its groups are the consecutive
  pieces of the list in order, none empty and none longer than 5, all but the last of length
  5. Bulk verification runs over these groups: it returns, whatever the order in which the
  answers arrive; verifying the whole list is verifying its first five domains and then,
  from the requests made so far, the remaining domains, the later entries overriding; the
  probes of a group are started together, their https requests coming first in the order
  of the group; and a single domain gets the result of its verification. The map returned
  has exactly the input domains as keys, each once; for distinct input domains it has as
  many entries as the input, so 12 for 12.
\<close>

theorem bulk_groups_and_keys:
  "\<exists>chunks results requests'.
      chunkArray domains 5 = Some chunks \<and> chunks = groupsOf 5 domains
      \<and> concat chunks = domains
      \<and> (\<forall>c\<in>set chunks. c \<noteq> [] \<and> length c \<le> 5)
      \<and> (\<forall>c\<in>set (butlast chunks). length c = 5)
      \<and> verifyBulk p arrival domains requests = Some (results, requests')
      \<and> (results, requests') = bulkLoop p arrival chunks ([], requests)
      \<and> set (map fst results) = set domains
      \<and> distinct (map fst results)
      \<and> (distinct domains \<longrightarrow> length results = length domains)
      \<and> (\<exists>first requests1 rest.
            verifyBulk p arrival (take 5 domains) requests = Some (first, requests1)
            \<and> verifyBulk p arrival (drop 5 domains) requests1 = Some (rest, requests')
            \<and> map_of results = map_of first ++ map_of rest)
      \<and> (length domains \<le> 5 \<longrightarrow>
            (\<exists>later. requests' = requests
                @ map (\<lambda>d. ''https://'' @ d) (filter (\<lambda>d. \<not> isBlockedDomain d) domains) @ later))
      \<and> (\<forall>d. domains = [d] \<longrightarrow>
            results = [(d, fst (verifyDomain p d requests))]
            \<and> requests' = snd (verifyDomain p d requests))"
proof -
  let ?chunks = "groupsOf 5 domains"
  let ?r = "bulkLoop p arrival ?chunks ([], requests)"
  have c: "chunkArray domains 5 = Some ?chunks"
    by (simp add: chunkArray_groupsOf)
  have cat: "concat ?chunks = domains"
    by (simp add: groupsOf_concat)
  have sizes: "\<forall>c\<in>set ?chunks. c \<noteq> [] \<and> length c \<le> 5"
    using groupsOf_sizes[of 5 domains] by simp
  have full: "\<forall>c\<in>set (butlast ?chunks). length c = 5"
    using groupsOf_full[of 5 domains] by simp
  have v: "verifyBulk p arrival domains requests = Some (fst ?r, snd ?r)"
    by (simp add: verifyBulk_loop)
  have keys: "set (map fst (fst ?r)) = set domains"
    using bulkLoop_keys[of p arrival ?chunks "([], requests)"] cat by simp
  have dist: "distinct (map fst (fst ?r))"
    using bulkLoop_distinct[of "([], requests)" p arrival ?chunks] by simp
  have len: "distinct domains \<longrightarrow> length (fst ?r) = length domains"
  proof
    assume d: "distinct domains"
    have "card (set (map fst (fst ?r))) = length (map fst (fst ?r))"
      using dist by (rule distinct_card)
    moreover have "card (set domains) = length domains"
      using d by (rule distinct_card)
    ultimately show "length (fst ?r) = length domains"
      using keys by simp
  qed
  have split: "\<exists>first requests1 rest.
            verifyBulk p arrival (take 5 domains) requests = Some (first, requests1)
            \<and> verifyBulk p arrival (drop 5 domains) requests1 = Some (rest, snd ?r)
            \<and> map_of (fst ?r) = map_of first ++ map_of rest"
    by (rule verifyBulk_split)
  have together: "length domains \<le> 5 \<longrightarrow>
            (\<exists>later. snd ?r = requests
                @ map (\<lambda>d. ''https://'' @ d) (filter (\<lambda>d. \<not> isBlockedDomain d) domains) @ later)"
  proof
    assume short: "length domains \<le> 5"
    show "\<exists>later. snd ?r = requests
                @ map (\<lambda>d. ''https://'' @ d) (filter (\<lambda>d. \<not> isBlockedDomain d) domains) @ later"
    proof (cases "domains = []")
      case True
      then show ?thesis by (simp add: groupsOf_Nil)
    next
      case False
      then have "?chunks = [domains]"
        using short by (simp add: groupsOf_step[of domains 5] groupsOf_Nil)
      then show ?thesis using group_requests[of p arrival domains requests] by simp
    qed
  qed
  have single: "\<forall>d. domains = [d] \<longrightarrow>
            fst ?r = [(d, fst (verifyDomain p d requests))]
            \<and> snd ?r = snd (verifyDomain p d requests)"
  proof (intro allI impI)
    fix d
    assume one: "domains = [d]"
    have "Some (fst ?r, snd ?r)
        = Some ([(d, fst (verifyDomain p d requests))], snd (verifyDomain p d requests))"
      using v verifyBulk_single[of p arrival d requests] one by simp
    then show "fst ?r = [(d, fst (verifyDomain p d requests))]
            \<and> snd ?r = snd (verifyDomain p d requests)"
      by simp
  qed
  show ?thesis
  proof (rule exI[of _ ?chunks], rule exI[of _ "fst ?r"], rule exI[of _ "snd ?r"], intro conjI)
    show "chunkArray domains 5 = Some ?chunks" by (rule c)
    show "?chunks = groupsOf 5 domains" by (rule refl)
    show "concat ?chunks = domains" by (rule cat)
    show "\<forall>c\<in>set ?chunks. c \<noteq> [] \<and> length c \<le> 5" by (rule sizes)
    show "\<forall>c\<in>set (butlast ?chunks). length c = 5" by (rule full)
    show "verifyBulk p arrival domains requests = Some (fst ?r, snd ?r)" by (rule v)
    show "(fst ?r, snd ?r) = ?r" by simp
    show "set (map fst (fst ?r)) = set domains" by (rule keys)
    show "distinct (map fst (fst ?r))" by (rule dist)
    show "distinct domains \<longrightarrow> length (fst ?r) = length domains" by (rule len)
    show "\<exists>first requests1 rest.
            verifyBulk p arrival (take 5 domains) requests = Some (first, requests1)
            \<and> verifyBulk p arrival (drop 5 domains) requests1 = Some (rest, snd ?r)
            \<and> map_of (fst ?r) = map_of first ++ map_of rest"
      by (rule split)
    show "length domains \<le> 5 \<longrightarrow>
            (\<exists>later. snd ?r = requests
                @ map (\<lambda>d. ''https://'' @ d) (filter (\<lambda>d. \<not> isBlockedDomain d) domains) @ later)"
      by (rule together)
    show "\<forall>d. domains = [d] \<longrightarrow>
            fst ?r = [(d, fst (verifyDomain p d requests))]
            \<and> snd ?r = snd (verifyDomain p d requests)"
      by (rule single)
  qed
qed

lemma twelve_groups:
  "chunkArray [''a.com'', ''b.com'', ''c.com'', ''d.com'', ''e.com'', ''f.com'', ''g.com'',
               ''h.com'', ''i.com'', ''j.com'', ''k.com'', ''l.com''] 5
     = Some [[''a.com'', ''b.com'', ''c.com'', ''d.com'', ''e.com''],
             [''f.com'', ''g.com'', ''h.com'', ''i.com'', ''j.com''],
             [''k.com'', ''l.com'']]"
  by (simp add: chunkArray_def chunkLoop.simps)

theorem bulk_groups_and_keys_witness:
  "(\<exists>results requests'.
      chunkArray [''a.com'', ''b.com'', ''c.com'', ''d.com'', ''e.com'', ''f.com'', ''g.com'',
                  ''h.com'', ''i.com'', ''j.com'', ''k.com'', ''l.com''] 5
        = Some [[''a.com'', ''b.com'', ''c.com'', ''d.com'', ''e.com''],
                [''f.com'', ''g.com'', ''h.com'', ''i.com'', ''j.com''],
                [''k.com'', ''l.com'']]
      \<and> verifyBulk offline (\<lambda>probes requests. 0)
            [''a.com'', ''b.com'', ''c.com'', ''d.com'', ''e.com'', ''f.com'', ''g.com'',
             ''h.com'', ''i.com'', ''j.com'', ''k.com'', ''l.com''] []
           = Some (results, requests')
      \<and> length results = 12)
   \<and> map_option snd (verifyBulk offline (\<lambda>probes requests. 0)
          [''a.com'', ''b.com'', ''c.com'', ''d.com'', ''e.com'', ''f.com''] [])
       = Some [''https://a.com'', ''https://b.com'', ''https://c.com'', ''https://d.com'',
               ''https://e.com'', ''http://a.com'', ''http://b.com'', ''http://c.com'',
               ''http://d.com'', ''http://e.com'', ''https://f.com'', ''http://f.com'']"
proof -
  let ?domains = "[''a.com'', ''b.com'', ''c.com'', ''d.com'', ''e.com'', ''f.com'', ''g.com'',
                   ''h.com'', ''i.com'', ''j.com'', ''k.com'', ''l.com'']"
  have d: "distinct ?domains" by simp
  obtain chunks results requests' where
    v: "verifyBulk offline (\<lambda>probes requests. 0) ?domains [] = Some (results, requests')"
    and l: "distinct ?domains \<longrightarrow> length results = length ?domains"
    using bulk_groups_and_keys [of ?domains offline "\<lambda>probes requests. 0" "[]"]
    by (elim exE conjE) (rule that, assumption+)
  have "length results = 12" using l d by simp
  then have twelve: "\<exists>results requests'.
      chunkArray ?domains 5
        = Some [[''a.com'', ''b.com'', ''c.com'', ''d.com'', ''e.com''],
                [''f.com'', ''g.com'', ''h.com'', ''i.com'', ''j.com''],
                [''k.com'', ''l.com'']]
      \<and> verifyBulk offline (\<lambda>probes requests. 0) ?domains [] = Some (results, requests')
      \<and> length results = 12"
    using v twelve_groups by blast
  show ?thesis
    by (rule conjI[OF twelve]) (simp only: six_domains_offline option.map snd_conv)
qed

end
